theory Spec2Isabelle
  imports Main
begin

section \<open>Hotel room availability: an embedding of \<open>modules/availability.py\<close>\<close>

text \<open>
  The module keeps a CSV table of hotels and offers two operations,
  \<open>decrement_room_availability\<close> and \<open>increment_room_availability\<close>. Each one reads the
  file with pandas, finds the rows that carry the hotel name, changes the first of them and
  writes the table back through a temporary file.

  Python strings are modelled as \<open>string\<close>, a list of bytes holding the UTF-8 text.
  \<open>str.strip\<close> is modelled on every text, with the white space of Unicode in its UTF-8
  form. \<open>str.lower\<close> is modelled on ASCII texts; where a text with another character has
  to be lower-cased the model stops. Python integers are \<open>int\<close>. The integers of a
  pandas column are 64 bit wide and its floats are 64 bit floats: the model follows a
  number where the column holds it exactly, and stops where it does not.
\<close>

subsection \<open>Python strings\<close>

definition ascii :: "string \<Rightarrow> bool" where
  "ascii s = list_all (\<lambda>c. (of_char c :: nat) < 128) s"

definition is_space :: "char \<Rightarrow> bool" where
  \<comment> \<open>\<open>str.isspace\<close> on ASCII: tab, line feed, VT, FF, CR, FS, GS, RS, US and the space\<close>
  "is_space c = ((of_char c :: nat) \<in> {9, 10, 11, 12, 13, 28, 29, 30, 31, 32})"

definition is_space2 :: "char \<Rightarrow> char \<Rightarrow> bool" where
  \<comment> \<open>the white space of two bytes: U+0085 and U+00A0\<close>
  "is_space2 a b = ((of_char a :: nat) = 0xC2 \<and> (of_char b :: nat) \<in> {0x85, 0xA0})"

definition is_space3 :: "char \<Rightarrow> char \<Rightarrow> char \<Rightarrow> bool" where
  \<comment> \<open>the white space of three bytes: U+1680, U+2000 to U+200A, U+2028, U+2029, U+202F,
      U+205F and U+3000\<close>
  "is_space3 a b c =
     (let x = (of_char a :: nat); y = (of_char b :: nat); z = (of_char c :: nat)
      in (x = 0xE1 \<and> y = 0x9A \<and> z = 0x80)
         \<or> (x = 0xE2 \<and> y = 0x80 \<and> ((0x80 \<le> z \<and> z \<le> 0x8A) \<or> z \<in> {0xA8, 0xA9, 0xAF}))
         \<or> (x = 0xE2 \<and> y = 0x81 \<and> z = 0x9F)
         \<or> (x = 0xE3 \<and> y = 0x80 \<and> z = 0x80))"

fun lstrip :: "string \<Rightarrow> string" where
  \<comment> \<open>\<open>str.lstrip()\<close>\<close>
  "lstrip (a # b # c # s) =
     (if is_space a then lstrip (b # c # s)
      else if is_space2 a b then lstrip (c # s)
      else if is_space3 a b c then lstrip s
      else a # b # c # s)"
| "lstrip [a, b] = (if is_space a then lstrip [b] else if is_space2 a b then [] else [a, b])"
| "lstrip [a] = (if is_space a then [] else [a])"
| "lstrip [] = []"

fun rstrip_rev :: "string \<Rightarrow> string" where
  \<comment> \<open>\<open>str.rstrip()\<close> on the text read backwards: a character of several bytes ends where
      the text ends, and begins at its lead byte\<close>
  "rstrip_rev (c # b # a # s) =
     (if is_space c then rstrip_rev (b # a # s)
      else if is_space2 b c then rstrip_rev (a # s)
      else if is_space3 a b c then rstrip_rev s
      else c # b # a # s)"
| "rstrip_rev [c, b] = (if is_space c then rstrip_rev [b] else if is_space2 b c then [] else [c, b])"
| "rstrip_rev [c] = (if is_space c then [] else [c])"
| "rstrip_rev [] = []"

definition strip :: "string \<Rightarrow> string" where
  \<comment> \<open>\<open>str.strip()\<close>\<close>
  "strip s = rev (rstrip_rev (rev (lstrip s)))"

definition lower_char :: "char \<Rightarrow> char" where
  "lower_char c =
     (let n = (of_char c :: nat) in if 65 \<le> n \<and> n \<le> 90 then char_of (n + 32) else c)"

definition ascii_lower :: "string \<Rightarrow> string" where
  \<comment> \<open>the letters A to Z in lower case\<close>
  "ascii_lower s = map lower_char s"

definition lower :: "string \<Rightarrow> string option" where
  \<comment> \<open>\<open>str.lower()\<close> of an ASCII text; \<open>None\<close> for a text with another character, whose
      lower case is a matter of the Unicode tables\<close>
  "lower s = (if ascii s then Some (ascii_lower s) else None)"

definition is_digit :: "char \<Rightarrow> bool" where
  "is_digit c = (48 \<le> (of_char c :: nat) \<and> (of_char c :: nat) \<le> 57)"

definition digit_val :: "char \<Rightarrow> nat" where
  "digit_val c = of_char c - 48"

definition digits_val :: "string \<Rightarrow> nat" where
  \<comment> \<open>the value of a string of decimal digits\<close>
  "digits_val s = foldl (\<lambda>a c. 10 * a + digit_val c) 0 s"

definition digit_char :: "nat \<Rightarrow> char" where
  "digit_char d = char_of (48 + d)"

function str_nat :: "nat \<Rightarrow> string" where
  "str_nat n = (if n < 10 then [digit_char n] else str_nat (n div 10) @ [digit_char (n mod 10)])"
  by pat_completeness auto
termination
  by (relation "measure id") auto

declare str_nat.simps [simp del]

definition str_int :: "int \<Rightarrow> string" where
  \<comment> \<open>\<open>str(n)\<close> of a Python integer\<close>
  "str_int n = (if n < 0 then CHR ''-'' # str_nat (nat (- n)) else str_nat (nat n))"

subsection \<open>Cells, columns and data frames\<close>

text \<open>
  A cell of a data frame is a missing value (the float \<open>nan\<close>), a text or an integer.
  A data frame is the list of its columns in header order, each with its cells in row
  order; rows are numbered from 0 (the \<open>RangeIndex\<close> that \<open>pd.read_csv\<close> gives).
\<close>

datatype cell = NaN | Str string | Integer int

type_synonym dataframe = "(string \<times> cell list) list"

definition len :: "dataframe \<Rightarrow> nat" where
  "len df = (case df of [] \<Rightarrow> 0 | (c, vs) # rest \<Rightarrow> length vs)"

definition has_column :: "dataframe \<Rightarrow> string \<Rightarrow> bool" where
  "has_column df c = (c \<in> set (map fst df))"

fun set_column :: "dataframe \<Rightarrow> string \<Rightarrow> cell list \<Rightarrow> dataframe" where
  \<comment> \<open>\<open>df[c] = vs\<close>: replaces the column, or appends a new one after the others\<close>
  "set_column [] c vs = [(c, vs)]"
| "set_column ((k, ws) # df) c vs =
     (if k = c then (k, vs) # df else (k, ws) # set_column df c vs)"

definition at :: "dataframe \<Rightarrow> nat \<Rightarrow> string \<Rightarrow> cell option" where
  \<comment> \<open>\<open>df.at[i, c]\<close>; \<open>None\<close> where pandas raises \<open>KeyError\<close>\<close>
  "at df i c =
     (case map_of df c of None \<Rightarrow> None
      | Some vs \<Rightarrow> if i < length vs then Some (vs ! i) else None)"

definition set_at :: "dataframe \<Rightarrow> nat \<Rightarrow> string \<Rightarrow> cell \<Rightarrow> dataframe" where
  \<comment> \<open>\<open>df.at[i, c] = v\<close> on an existing column and row\<close>
  "set_at df i c v = map (\<lambda>(k, vs). if k = c then (k, vs[i := v]) else (k, vs)) df"

definition astype_str :: "cell \<Rightarrow> string" where
  \<comment> \<open>\<open>Series.astype(str)\<close> on one cell of an object column, which is what \<open>dtype=str\<close>
      gives in pandas 1 and 2: the missing value becomes the text \<open>nan\<close>\<close>
  "astype_str v = (case v of NaN \<Rightarrow> ''nan'' | Str s \<Rightarrow> s | Integer n \<Rightarrow> str_int n)"

subsection \<open>Reading numbers: \<open>pd.to_numeric\<close>\<close>

text \<open>
  \<open>pd.to_numeric(errors='coerce')\<close> on one text. An optional sign and decimal digits are
  an integer; digits with a decimal point are a float, kept here as its sign, its integer
  part and the digits of its fraction; any other text is coerced to the missing value.
  A float of pandas is a 64 bit float: a literal of at most 15 digits is read with its
  integer part exact, and the model stops (\<open>None\<close>) at a longer one. The library also
  reads exponent notation (digits, with or without a decimal point, then \<open>e\<close> or \<open>E\<close>, a
  sign or none, and digits) and the names of infinity: the model stops there too and
  makes no statement about such a cell.
\<close>

datatype numeric = Int_num int | Float_num bool nat string | NaN_num

definition split_sign :: "string \<Rightarrow> bool \<times> string" where
  "split_sign s =
     (case s of [] \<Rightarrow> (False, [])
      | c # r \<Rightarrow> if c = CHR ''-'' then (True, r)
                 else if c = CHR ''+'' then (False, r) else (False, s))"

definition exponent_form :: "string \<Rightarrow> bool" where
  \<comment> \<open>a number with an exponent mark, after its sign\<close>
  "exponent_form body =
     (let ip = takeWhile is_digit body;
          r1 = dropWhile is_digit body;
          point = (r1 \<noteq> [] \<and> hd r1 = CHR ''.'');
          frac = (if point then takeWhile is_digit (tl r1) else []);
          r2 = (if point then dropWhile is_digit (tl r1) else r1)
      in (ip \<noteq> [] \<or> frac \<noteq> []) \<and> r2 \<noteq> [] \<and> (hd r2 = CHR ''e'' \<or> hd r2 = CHR ''E'')
         \<and> list_all is_digit (snd (split_sign (tl r2))))"

definition exotic :: "string \<Rightarrow> bool" where
  \<comment> \<open>a name of infinity, or a number with an exponent mark\<close>
  "exotic s =
     (let body = snd (split_sign s)
      in ascii_lower body = ''inf'' \<or> ascii_lower body = ''infinity'' \<or> exponent_form body)"

definition to_numeric :: "string \<Rightarrow> numeric option" where
  "to_numeric s =
     (let (neg, body) = split_sign s;
          ip = takeWhile is_digit body;
          rest = dropWhile is_digit body
      in if ip \<noteq> [] \<and> rest = []
         then Some (Int_num (if neg then - int (digits_val ip) else int (digits_val ip)))
         else if rest \<noteq> [] \<and> hd rest = CHR ''.'' \<and> list_all is_digit (tl rest)
                 \<and> (ip \<noteq> [] \<or> tl rest \<noteq> [])
         then (if length ip + length (tl rest) \<le> 15
               then Some (Float_num neg (digits_val ip) (tl rest)) else None)
         else if exotic s then None
         else Some NaN_num)"

definition fillna0_astype_int :: "numeric \<Rightarrow> int" where
  \<comment> \<open>\<open>.fillna(0).astype(int)\<close>: a float is truncated toward zero\<close>
  "fillna0_astype_int v =
     (case v of Int_num n \<Rightarrow> n
      | Float_num neg ip frac \<Rightarrow> if neg then - int ip else int ip
      | NaN_num \<Rightarrow> 0)"

text \<open>
  The numbers of a column share one type. Where every cell is an integer of 64 bits the
  column holds integers, and each is exact. Where a cell is a float or missing the whole
  column holds floats, and an integer is exact in it as long as it is below \<open>10 ^ 15\<close>
  in size. A column with a number that its type does not hold exactly is not modelled.
\<close>

definition int64 :: "int \<Rightarrow> bool" where
  "int64 n = (- (2 ^ 63) \<le> n \<and> n < 2 ^ 63)"

definition is_int64 :: "numeric \<Rightarrow> bool" where
  "is_int64 v = (case v of Int_num n \<Rightarrow> int64 n | _ \<Rightarrow> False)"

definition exact_float :: "numeric \<Rightarrow> bool" where
  "exact_float v =
     (case v of Int_num n \<Rightarrow> \<bar>n\<bar> < 10 ^ 15
      | Float_num neg ip frac \<Rightarrow> int ip < 10 ^ 15
      | NaN_num \<Rightarrow> True)"

definition fillna0_astype_int_column :: "numeric list \<Rightarrow> int list option" where
  "fillna0_astype_int_column vs =
     (if list_all is_int64 vs \<or> list_all exact_float vs
      then Some (map fillna0_astype_int vs) else None)"

definition remove_commas :: "string \<Rightarrow> string" where
  \<comment> \<open>\<open>.str.replace(',', '')\<close>\<close>
  "remove_commas s = filter (\<lambda>c. c \<noteq> CHR '','') s"

definition strip_dot0 :: "string \<Rightarrow> string" where
  \<comment> \<open>\<open>.str.replace(r'\.0$', '', regex=True)\<close> on a stripped text\<close>
  "strip_dot0 s =
     (if 2 \<le> length s \<and> drop (length s - 2) s = ''.0'' then take (length s - 2) s else s)"

definition clean :: "string \<Rightarrow> string" where
  \<comment> \<open>lines 26 and 27 on one text: the three steps before the number is read\<close>
  "clean s = strip_dot0 (strip (remove_commas s))"

subsection \<open>Files\<close>

text \<open>
  The bytes of a file and the CSV grammar are not modelled. A file is what the loop over
  the encodings in \<open>_safe_read_csv\<close> makes of it: \<open>Parsed t\<close> when \<open>pd.read_csv(dtype=str)\<close>
  succeeds under the first encoding that does, with the columns \<open>t\<close> it returns (every
  field a text, or missing), and \<open>Unreadable\<close> when it raises under all three. A path
  names a file by its text.
\<close>

datatype content = Parsed "(string \<times> string option list) list" | Unreadable

type_synonym filesystem = "string \<rightharpoonup> content"

text \<open>
  The exceptions: \<open>ValueError\<close> and \<open>FileNotFoundError\<close> with their messages;
  \<open>Last_exc\<close> for the exception that \<open>_safe_read_csv\<close> raises again after the last
  encoding has failed; \<open>KeyError\<close> for a column or row that \<open>df.at\<close> does not find;
  \<open>FileExistsError\<close> for \<open>mkstemp\<close> running out of names; \<open>AssertionError\<close> for what
  pandas raises when \<open>df.at\<close> is to store, in a column of 64 bit integers, an integer
  from \<open>2 ^ 63\<close> on that still has 64 bits. \<open>Not_modelled\<close> marks a call into pandas
  that leaves the part of the library modelled here.
\<close>

datatype error =
    ValueError string
  | FileNotFoundError string
  | Last_exc
  | KeyError
  | FileExistsError
  | AssertionError
  | Not_modelled

definition read_csv :: "content \<Rightarrow> dataframe option" where
  \<comment> \<open>the frame that the loop over the encodings ends with, if any\<close>
  "read_csv f =
     (case f of Unreadable \<Rightarrow> None
      | Parsed t \<Rightarrow>
          Some (map (\<lambda>(c, vs). (c, map (\<lambda>v. case v of None \<Rightarrow> NaN | Some s \<Rightarrow> Str s) vs)) t))"

definition to_csv :: "dataframe \<Rightarrow> content" where
  \<comment> \<open>\<open>df.to_csv(index=False)\<close>, as \<open>pd.read_csv(dtype=str)\<close> reads it again: a missing
      value is written as an empty field, an integer in decimal, and a text as it is (a
      text that came from a file is none of the markers of a missing value, and neither
      is a status label)\<close>
  "to_csv df =
     Parsed (map (\<lambda>(c, vs).
        (c, map (\<lambda>v. case v of NaN \<Rightarrow> None | Str s \<Rightarrow> Some s
                        | Integer n \<Rightarrow> Some (str_int n)) vs)) df)"

subsection \<open>The loader: \<open>_safe_read_csv\<close>\<close>

definition quote :: "string \<Rightarrow> string" where
  "quote s = [CHR 0x27] @ s @ [CHR 0x27]"

definition AVAILABLE :: string where
  \<comment> \<open>the status label for rooms left, in UTF-8\<close>
  "AVAILABLE = [CHR ''c'', CHR 0xC3, CHR 0xB2, CHR ''n'']"

definition UNAVAILABLE :: string where
  \<comment> \<open>the status label for no rooms left, in UTF-8\<close>
  "UNAVAILABLE = [CHR ''h'', CHR 0xE1, CHR 0xBA, CHR 0xBF, CHR ''t'']"

definition status_label :: "int \<Rightarrow> string" where
  "status_label x = (if x > 0 then AVAILABLE else UNAVAILABLE)"

definition normalize_rooms :: "cell list \<Rightarrow> int list option" where
  \<comment> \<open>lines 26 to 28 on the column; \<open>None\<close> where a number is not modelled\<close>
  "normalize_rooms col =
     Option.bind (those (map (\<lambda>v. to_numeric (clean (astype_str v))) col))
       fillna0_astype_int_column"

definition normalize_frame :: "dataframe \<Rightarrow> error + dataframe" where
  \<comment> \<open>lines 22 to 34: what \<open>_safe_read_csv\<close> does to the frame it has read\<close>
  "normalize_frame df0 =
     (let df1 = (if \<not> has_column df0 ''rooms_available''
                 then set_column df0 ''rooms_available'' (replicate (len df0) (Integer 0))
                 else df0)
      in case map_of df1 ''rooms_available'' of
           None \<Rightarrow> Inl KeyError
         | Some col \<Rightarrow>
            (case normalize_rooms col of
               None \<Rightarrow> Inl Not_modelled
             | Some ns \<Rightarrow>
                let df2 = set_column df1 ''rooms_available'' (map Integer ns)
                in Inr (if \<not> has_column df2 ''status''
                        then set_column df2 ''status'' (map (\<lambda>x. Str (status_label x)) ns)
                        else df2)))"

definition safe_read_csv :: "filesystem \<Rightarrow> string \<Rightarrow> error + dataframe" where
  "safe_read_csv fs path =
     (case fs path of
        None \<Rightarrow> Inl (FileNotFoundError (''[Errno 2] No such file or directory: '' @ quote path))
      | Some f \<Rightarrow>
         (case read_csv f of
            None \<Rightarrow> Inl Last_exc
          | Some df0 \<Rightarrow> normalize_frame df0))"

subsection \<open>The matcher: \<open>_match_rows\<close>\<close>

text \<open>
  \<open>Series.str.contains(pat, na=False)\<close> reads \<open>pat\<close> as a regular expression
  (\<open>regex=True\<close> is the default of pandas) and searches each text for it. The model
  covers the patterns made of plain characters and the dot, which stands for any character
  but the line feed; a pattern with another character of the regular expression syntax is
  not modelled (\<open>None\<close>). Pattern and text are lower-cased before the search, so they are
  ASCII texts where the model searches, and a character is a byte.
\<close>

datatype atom = Lit char | Any_char

definition regex_special :: "char \<Rightarrow> bool" where
  "regex_special c = (c \<in> set ''.^$*+?{}[]|()'' \<or> c = CHR 0x5C)"

fun re_compile :: "string \<Rightarrow> atom list option" where
  "re_compile [] = Some []"
| "re_compile (c # cs) =
     (if c = CHR ''.'' then map_option (\<lambda>p. Any_char # p) (re_compile cs)
      else if regex_special c then None
      else map_option (\<lambda>p. Lit c # p) (re_compile cs))"

fun atom_matches :: "atom \<Rightarrow> char \<Rightarrow> bool" where
  \<comment> \<open>on a character of an ASCII text\<close>
  "atom_matches (Lit a) c = (a = c)"
| "atom_matches Any_char c = (c \<noteq> CHR 0x0A)"

fun match_here :: "atom list \<Rightarrow> string \<Rightarrow> bool" where
  "match_here [] s = True"
| "match_here (a # p) [] = False"
| "match_here (a # p) (c # s) = (atom_matches a c \<and> match_here p s)"

fun re_search :: "atom list \<Rightarrow> string \<Rightarrow> bool" where
  "re_search p [] = match_here p []"
| "re_search p (c # s) = (match_here p (c # s) \<or> re_search p s)"

text \<open>
  The tests of the three stages on one trimmed text \<open>x\<close> of a column; \<open>None\<close> where the
  outcome depends on the lower case of a text that is not ASCII. The lower case of a text
  is empty only if the text is, and the empty pattern is found in every text: so much is
  known of any text.
\<close>

definition exact_equal :: "string \<Rightarrow> string \<Rightarrow> bool option" where
  \<comment> \<open>\<open>x == hotel_name\<close>\<close>
  "exact_equal t x = Some (x = t)"

definition caseless_equal :: "string \<Rightarrow> string \<Rightarrow> bool option" where
  \<comment> \<open>\<open>x.lower() == hotel_name.lower()\<close>\<close>
  "caseless_equal t x =
     (case (lower x, lower t) of
        (Some a, Some b) \<Rightarrow> Some (a = b)
      | _ \<Rightarrow> if x = [] \<or> t = [] then Some False else None)"

definition search_lowered :: "atom list \<Rightarrow> string \<Rightarrow> bool option" where
  \<comment> \<open>\<open>re.search(pat, x.lower())\<close> finds a match\<close>
  "search_lowered pat x = (if pat = [] then Some True else map_option (re_search pat) (lower x))"

definition any :: "bool list \<Rightarrow> bool" where
  \<comment> \<open>\<open>Series.any()\<close>\<close>
  "any bs = (True \<in> set bs)"

definition or_where ::
  "dataframe \<Rightarrow> string \<Rightarrow> (string \<Rightarrow> bool option) \<Rightarrow> bool list \<Rightarrow> bool list option" where
  \<comment> \<open>\<open>if c in df.columns: candidates = candidates | test(df[c].astype(str).str.strip())\<close>\<close>
  "or_where df c test candidates =
     (case map_of df c of
        None \<Rightarrow> Some candidates
      | Some col \<Rightarrow>
          map_option (map2 (\<or>) candidates) (those (map (\<lambda>v. test (strip (astype_str v))) col)))"

definition stage ::
  "dataframe \<Rightarrow> (string \<Rightarrow> bool option) \<Rightarrow> bool list \<Rightarrow> bool list option" where
  \<comment> \<open>one stage: the column \<open>name\<close>, then the column \<open>hotel_name\<close>\<close>
  "stage df test candidates =
     Option.bind (or_where df ''name'' test candidates) (or_where df ''hotel_name'' test)"

definition match_rows :: "dataframe \<Rightarrow> string \<Rightarrow> error + bool list" where
  \<comment> \<open>a later stage runs where \<open>not candidates.any()\<close>; the pattern of the third stage is
      compiled where \<open>str.contains\<close> is called, that is where one of the two columns
      exists\<close>
  "match_rows df hotel_name =
     (let hotel_name = strip hotel_name;
          candidates = replicate (len df) False
      in case stage df (exact_equal hotel_name) candidates of
           None \<Rightarrow> Inl Not_modelled
         | Some candidates \<Rightarrow>
            if any candidates then Inr candidates
            else
              (case stage df (caseless_equal hotel_name) candidates of
                 None \<Rightarrow> Inl Not_modelled
               | Some candidates \<Rightarrow>
                  if any candidates \<or> \<not> (has_column df ''name'' \<or> has_column df ''hotel_name'')
                  then Inr candidates
                  else
                    (case Option.bind (lower hotel_name) re_compile of
                       None \<Rightarrow> Inl Not_modelled
                     | Some pat \<Rightarrow>
                        (case stage df (search_lowered pat) candidates of
                           None \<Rightarrow> Inl Not_modelled
                         | Some candidates \<Rightarrow> Inr candidates))))"

definition first_true :: "bool list \<Rightarrow> nat" where
  \<comment> \<open>\<open>df[matches].index[0]\<close>, called where \<open>matches.any()\<close> holds\<close>
  "first_true bs = length (takeWhile Not bs)"

subsection \<open>The writer: \<open>_atomic_write_csv\<close>\<close>

definition is_slash :: "char \<Rightarrow> bool" where
  "is_slash c = (c = CHR ''/'')"

definition dirname :: "string \<Rightarrow> string" where
  \<comment> \<open>\<open>os.path.dirname\<close> of \<open>posixpath\<close>\<close>
  "dirname p =
     (let head = rev (dropWhile (\<lambda>c. \<not> is_slash c) (rev p))
      in if head \<noteq> [] \<and> \<not> list_all is_slash head
         then rev (dropWhile is_slash (rev head)) else head)"

definition path_join :: "string \<Rightarrow> string \<Rightarrow> string" where
  \<comment> \<open>\<open>os.path.join\<close> of \<open>posixpath\<close> on two parts\<close>
  "path_join a b =
     (if b \<noteq> [] \<and> is_slash (hd b) then b
      else if a = [] \<or> is_slash (last a) then a @ b
      else a @ ''/'' @ b)"

text \<open>
  \<open>tempfile.mkstemp(suffix, dir)\<close> tries the names that its random generator proposes,
  here the list \<open>names\<close>, and creates the first file that does not exist yet, empty; an
  empty file is one that \<open>pd.read_csv\<close> refuses. The library makes the directory absolute
  before it joins the name; the model keeps the directory as it is written, for the same
  directory. Failures of the operating system while the file is written are not modelled.
\<close>

fun mkstemp_inner :: "filesystem \<Rightarrow> string \<Rightarrow> string \<Rightarrow> string \<Rightarrow> string list \<Rightarrow> error + string" where
  "mkstemp_inner fs dir pre suf [] = Inl FileExistsError"
| "mkstemp_inner fs dir pre suf (name # names) =
     (let file = path_join dir (pre @ name @ suf)
      in if fs file \<noteq> None then mkstemp_inner fs dir pre suf names else Inr file)"

definition mkstemp :: "string \<Rightarrow> string \<Rightarrow> string list \<Rightarrow> filesystem \<Rightarrow> error + (string \<times> filesystem)" where
  "mkstemp suffix dir names fs =
     (case mkstemp_inner fs dir ''tmp'' suffix names of
        Inl e \<Rightarrow> Inl e
      | Inr file \<Rightarrow> Inr (file, fs(file \<mapsto> Unreadable)))"

definition os_replace :: "string \<Rightarrow> string \<Rightarrow> filesystem \<Rightarrow> filesystem" where
  \<comment> \<open>\<open>os.replace(src, dst)\<close>: one step of the file system\<close>
  "os_replace src dst fs = (if src = dst then fs else (fs(dst := fs src))(src := None))"

definition atomic_write_csv_states ::
  "dataframe \<Rightarrow> string \<Rightarrow> string list \<Rightarrow> content list \<Rightarrow> filesystem \<Rightarrow> error + filesystem list" where
  \<comment> \<open>the file system after each step of \<open>_atomic_write_csv\<close>, the state it starts from
      first; \<open>partial\<close> are the contents that the temporary file passes through while
      \<open>to_csv\<close> writes it\<close>
  "atomic_write_csv_states df path names partial fs =
     (let dirpath = (if dirname path = [] then ''.'' else dirname path)
      in case mkstemp ''.csv'' dirpath names fs of
           Inl e \<Rightarrow> Inl e
         | Inr (tmp_path, fs1) \<Rightarrow>
             let fs2 = fs1(tmp_path \<mapsto> to_csv df)
             in Inr ([fs, fs1] @ map (\<lambda>c. fs1(tmp_path \<mapsto> c)) partial
                       @ [fs2, os_replace tmp_path path fs2]))"

definition atomic_write_csv ::
  "dataframe \<Rightarrow> string \<Rightarrow> string list \<Rightarrow> filesystem \<Rightarrow> error + filesystem" where
  "atomic_write_csv df path names fs =
     (let dirpath = (if dirname path = [] then ''.'' else dirname path)
      in case mkstemp ''.csv'' dirpath names fs of
           Inl e \<Rightarrow> Inl e
         | Inr (tmp_path, fs1) \<Rightarrow>
             Inr (os_replace tmp_path path (fs1(tmp_path \<mapsto> to_csv df))))"

subsection \<open>The two operations\<close>

definition update_first ::
  "(int \<Rightarrow> int) \<Rightarrow> string list \<Rightarrow> filesystem \<Rightarrow> string \<Rightarrow> string \<Rightarrow> (error + int) \<times> filesystem" where
  \<comment> \<open>what the two operations share, from the test that the file exists to the return;
      \<open>new\<close> is the new value as a function of the current one. After the loader the
      cell read through \<open>df.at\<close> is an integer; the last case stands for any other. The
      column holds integers of 64 bits: the assignment of a new value from \<open>2 ^ 63\<close> on
      raises, and beyond 64 bits it is not modelled\<close>
  "update_first new names fs hotels_csv_path hotel_name =
     (if fs hotels_csv_path = None
      then (Inl (FileNotFoundError (''Hotels CSV not found: '' @ hotels_csv_path)), fs)
      else case safe_read_csv fs hotels_csv_path of
        Inl e \<Rightarrow> (Inl e, fs)
      | Inr df \<Rightarrow>
         (case match_rows df hotel_name of
            Inl e \<Rightarrow> (Inl e, fs)
          | Inr matches \<Rightarrow>
             if \<not> any matches
             then (Inl (ValueError (''No matching hotel found for name '' @ quote hotel_name
                                      @ '' in '' @ hotels_csv_path)), fs)
             else
               let first_idx = first_true matches
               in (case at df first_idx ''rooms_available'' of
                     Some (Integer current) \<Rightarrow>
                       let new_val = new current
                       in if 2 ^ 63 \<le> new_val \<and> new_val < 2 ^ 64 then (Inl AssertionError, fs)
                          else if \<not> int64 new_val then (Inl Not_modelled, fs)
                          else
                            let df = set_at df first_idx ''rooms_available'' (Integer new_val);
                                df = set_at df first_idx ''status'' (Str (status_label new_val))
                            in (case atomic_write_csv df hotels_csv_path names fs of
                                  Inl e \<Rightarrow> (Inl e, fs)
                                | Inr fs' \<Rightarrow> (Inr new_val, fs'))
                   | _ \<Rightarrow> (Inl KeyError, fs))))"

definition decrement_room_availability ::
  "string list \<Rightarrow> filesystem \<Rightarrow> string \<Rightarrow> string \<Rightarrow> int \<Rightarrow> (error + int) \<times> filesystem" where
  "decrement_room_availability names fs hotels_csv_path hotel_name decrement =
     (if decrement \<le> 0 then (Inl (ValueError ''decrement must be positive''), fs)
      else update_first (\<lambda>current. max 0 (current - decrement))
             names fs hotels_csv_path hotel_name)"

definition increment_room_availability ::
  "string list \<Rightarrow> filesystem \<Rightarrow> string \<Rightarrow> string \<Rightarrow> int \<Rightarrow> (error + int) \<times> filesystem" where
  "increment_room_availability names fs hotels_csv_path hotel_name increment =
     (if increment \<le> 0 then (Inl (ValueError ''increment must be positive''), fs)
      else update_first (\<lambda>current. current + increment)
             names fs hotels_csv_path hotel_name)"

subsection \<open>Tables as pandas holds them\<close>

text \<open>
  \<open>pd.read_csv\<close> gives columns of one length under distinct names. After the loader the
  column \<open>rooms_available\<close> holds integers of 64 bits, the column \<open>status\<close> exists, and
  every other cell is a text or missing.
\<close>

definition wf_table :: "(string \<times> string option list) list \<Rightarrow> bool" where
  "wf_table t =
     (distinct (map fst t) \<and> list_all (\<lambda>(c, vs). length vs = length (snd (hd t))) t)"

definition is_Integer :: "cell \<Rightarrow> bool" where
  "is_Integer v = (case v of Integer n \<Rightarrow> True | _ \<Rightarrow> False)"

definition rect :: "dataframe \<Rightarrow> bool" where
  "rect df = list_all (\<lambda>(c, vs). length vs = len df) df"

definition is_int64_cell :: "cell \<Rightarrow> bool" where
  "is_int64_cell v = (case v of Integer n \<Rightarrow> int64 n | _ \<Rightarrow> False)"

definition typed :: "dataframe \<Rightarrow> bool" where
  "typed df =
     (distinct (map fst df) \<and> rect df
      \<and> has_column df ''rooms_available'' \<and> has_column df ''status''
      \<and> list_all (\<lambda>(c, vs). list_all (\<lambda>v. if c = ''rooms_available'' then is_int64_cell v
                                           else \<not> is_Integer v) vs) df)"

definition others_plain :: "dataframe \<Rightarrow> bool" where
  "others_plain df =
     (\<forall>(c, vs) \<in> set df. c \<noteq> ''rooms_available'' \<longrightarrow> (\<forall>v \<in> set vs. \<not> is_Integer v))"

definition mutated :: "dataframe \<Rightarrow> nat \<Rightarrow> int \<Rightarrow> dataframe" where
  \<comment> \<open>the frame after the two assignments through \<open>df.at\<close> in row \<open>i\<close>\<close>
  "mutated df i v =
     set_at (set_at df i ''rooms_available'' (Integer v)) i ''status'' (Str (status_label v))"

definition can_create_temp :: "string list \<Rightarrow> filesystem \<Rightarrow> string \<Rightarrow> bool" where
  \<comment> \<open>one of the proposed names is free in the directory of \<open>path\<close>, so \<open>mkstemp\<close> succeeds\<close>
  "can_create_temp names fs path =
     (\<exists>name \<in> set names.
        fs (path_join (if dirname path = [] then ''.'' else dirname path)
              (''tmp'' @ name @ ''.csv'')) = None)"

subsection \<open>The wording of the specification\<close>

text \<open>
  The specification describes the third stage of the matcher as containment of one text
  in another, and the loader as an integer parser. These two definitions follow its
  words, to be compared with the code.
\<close>

fun starts_with :: "string \<Rightarrow> string \<Rightarrow> bool" where
  "starts_with s [] = True"
| "starts_with [] (c # t) = False"
| "starts_with (a # s) (c # t) = (a = c \<and> starts_with s t)"

fun contains_text :: "string \<Rightarrow> string \<Rightarrow> bool" where
  \<comment> \<open>\<open>contains_text x t\<close>: the text \<open>t\<close> occurs in \<open>x\<close>\<close>
  "contains_text [] t = starts_with [] t"
| "contains_text (a # x) t = (starts_with (a # x) t \<or> contains_text x t)"



text \<open>
  One stage of the matcher in the words of the specification: the rows in which the
  trimmed \<open>name\<close> or the trimmed \<open>hotel_name\<close>, whichever exists, passes the test of
  the stage. The matcher of the specification returns the rows of the first stage that
  finds any.
\<close>

definition spec_stage :: "dataframe \<Rightarrow> (string \<Rightarrow> bool) \<Rightarrow> bool list" where
  "spec_stage df test =
     map (\<lambda>j. (case at df j ''name'' of None \<Rightarrow> False
                 | Some v \<Rightarrow> test (strip (astype_str v)))
             \<or> (case at df j ''hotel_name'' of None \<Rightarrow> False
                 | Some v \<Rightarrow> test (strip (astype_str v))))
       [0 ..< len df]"

definition spec_match :: "dataframe \<Rightarrow> string \<Rightarrow> bool list" where
  \<comment> \<open>with the lower case of the letters A to Z, for tables and names in ASCII\<close>
  "spec_match df target =
     (let t = strip target;
          exact = spec_stage df (\<lambda>x. x = t);
          caseless = spec_stage df (\<lambda>x. ascii_lower x = ascii_lower t);
          substring = spec_stage df (\<lambda>x. contains_text (ascii_lower x) (ascii_lower t))
      in if any exact then exact else if any caseless then caseless else substring)"

definition name_texts :: "dataframe \<Rightarrow> string list" where
  \<comment> \<open>the trimmed texts that the matcher compares\<close>
  "name_texts df =
     concat (map (\<lambda>c. case map_of df c of None \<Rightarrow> []
                       | Some col \<Rightarrow> map (\<lambda>v. strip (astype_str v)) col)
               [''name'', ''hotel_name''])"

definition is_Str :: "cell \<Rightarrow> bool" where
  "is_Str v = (case v of Str s \<Rightarrow> True | _ \<Rightarrow> False)"

definition named :: "dataframe \<Rightarrow> nat \<Rightarrow> bool" where
  \<comment> \<open>row \<open>j\<close> has a name or a hotel name that is not missing\<close>
  "named df j =
     ((case at df j ''name'' of None \<Rightarrow> False | Some v \<Rightarrow> is_Str v)
      \<or> (case at df j ''hotel_name'' of None \<Rightarrow> False | Some v \<Rightarrow> is_Str v))"




subsection \<open>A sample file\<close>

text \<open>The scenario of the specification: one hotel with ten rooms, and no status column.\<close>

definition sunrise_table :: "(string \<times> string option list) list" where
  "sunrise_table = [(''name'', [Some ''Sunrise Inn'']), (''rooms_available'', [Some ''10''])]"

definition sunrise_fs :: filesystem where
  "sunrise_fs = Map.empty(''data/hotels.csv'' \<mapsto> Parsed sunrise_table)"

text \<open>
  Two hotels of one name, a column that no operation reads, and a count written with a
  thousands separator.
\<close>

definition grand_table :: "(string \<times> string option list) list" where
  "grand_table =
     [(''name'', [Some ''Moon Lodge'', Some ''Grand Hotel'', Some ''Grand Hotel'']),
      (''city'', [Some ''Hue'', None, Some ''Da Nang'']),
      (''rooms_available'', [Some ''4'', Some ''8'', Some ''1,200.0''])]"

definition grand_fs :: filesystem where
  "grand_fs = Map.empty(''data/hotels.csv'' \<mapsto> Parsed grand_table)"

text \<open>A file that comes with a status column, out of date in its second row.\<close>

definition stale_table :: "(string \<times> string option list) list" where
  "stale_table =
     [(''name'', [Some ''Sunrise Inn'', Some ''Moon Lodge'', Some ''Star Hostel'']),
      (''rooms_available'', [Some ''10'', Some ''5'', Some ''-2'']),
      (''status'', [Some AVAILABLE, Some UNAVAILABLE, Some UNAVAILABLE])]"

definition stale_fs :: filesystem where
  "stale_fs = Map.empty(''data/hotels.csv'' \<mapsto> Parsed stale_table)"

text \<open>
  A file with a status column, a count written with a thousands separator, and a count
  that is no number.
\<close>

definition comma_table :: "(string \<times> string option list) list" where
  "comma_table =
     [(''name'', [Some ''Sunrise Inn'', Some ''Moon Lodge'', Some ''Star Hostel'']),
      (''rooms_available'', [Some ''10'', Some ''1,200.0'', Some ''sold out'']),
      (''status'', [Some AVAILABLE, Some AVAILABLE, Some UNAVAILABLE])]"

definition comma_fs :: filesystem where
  "comma_fs = Map.empty(''data/hotels.csv'' \<mapsto> Parsed comma_table)"



text \<open>A file in which one hotel has a name of two spaces.\<close>

definition blank_table :: "(string \<times> string option list) list" where
  "blank_table =
     [(''name'', [Some ''Alpha Hotel'', Some ''  '']),
      (''rooms_available'', [Some ''5'', Some ''3''])]"

definition blank_fs :: filesystem where
  "blank_fs = Map.empty(''data/hotels.csv'' \<mapsto> Parsed blank_table)"




section \<open>Properties\<close>

subsection \<open>Integers written and read again\<close>

lemma is_digit_digit_char: "d < 10 \<Longrightarrow> is_digit (digit_char d)"
  by (simp add: is_digit_def digit_char_def)

lemma digit_val_digit_char: "d < 10 \<Longrightarrow> digit_val (digit_char d) = d"
  by (simp add: digit_val_def digit_char_def)

lemma digits_val_snoc: "digits_val (s @ [c]) = 10 * digits_val s + digit_val c"
  by (simp add: digits_val_def)

lemma str_nat_digits: "list_all is_digit (str_nat n)"
proof (induction n rule: str_nat.induct)
  case (1 n)
  show ?case
  proof (cases "n < 10")
    case True
    then show ?thesis by (subst str_nat.simps) (simp add: is_digit_digit_char)
  next
    case False
    with 1 show ?thesis by (subst str_nat.simps) (simp add: is_digit_digit_char)
  qed
qed

lemma str_nat_nonempty: "str_nat n \<noteq> []"
  by (subst str_nat.simps) simp

lemma digits_val_str_nat: "digits_val (str_nat n) = n"
proof (induction n rule: str_nat.induct)
  case (1 n)
  show ?case
  proof (cases "n < 10")
    case True
    then show ?thesis
      by (subst str_nat.simps) (simp add: digits_val_def digit_val_digit_char)
  next
    case False
    with 1 show ?thesis
      by (subst str_nat.simps) (simp add: digits_val_snoc digit_val_digit_char)
  qed
qed

lemma is_digit_plain:
  "is_digit c \<Longrightarrow>
     c \<noteq> CHR '','' \<and> \<not> is_space c \<and> (of_char c :: nat) < 128 \<and> c \<noteq> CHR ''.''
     \<and> c \<noteq> CHR ''-'' \<and> c \<noteq> CHR ''+''"
  by (auto simp: is_digit_def is_space_def)

lemma lstrip_keep: "\<not> is_space a \<Longrightarrow> (of_char a :: nat) < 128 \<Longrightarrow> lstrip (a # s) = a # s"
proof -
  assume a: "\<not> is_space a" "(of_char a :: nat) < 128"
  then have n: "\<not> is_space2 a b" "\<not> is_space3 a b c" for b c
    by (auto simp: is_space2_def is_space3_def Let_def)
  show ?thesis
  proof (cases s)
    case Nil
    with a show ?thesis by simp
  next
    case (Cons b s')
    with a n show ?thesis by (cases s') simp_all
  qed
qed

lemma rstrip_rev_keep:
  "\<not> is_space c \<Longrightarrow> (of_char c :: nat) < 128 \<Longrightarrow> rstrip_rev (c # s) = c # s"
proof -
  assume a: "\<not> is_space c" "(of_char c :: nat) < 128"
  then have n: "\<not> is_space2 b c" "\<not> is_space3 a b c" for a b
    by (auto simp: is_space2_def is_space3_def Let_def)
  show ?thesis
  proof (cases s)
    case Nil
    with a show ?thesis by simp
  next
    case (Cons b s')
    with a n show ?thesis by (cases s') simp_all
  qed
qed

lemma strip_no_space:
  assumes "list_all (\<lambda>c. \<not> is_space c \<and> (of_char c :: nat) < 128) s"
  shows "strip s = s"
proof (cases s)
  case Nil
  then show ?thesis by (simp add: strip_def)
next
  case (Cons a s')
  with assms have 1: "lstrip s = s" by (simp add: lstrip_keep)
  from Cons obtain c r where r: "rev s = c # r" by (cases "rev s") auto
  then have "c \<in> set s" by (metis list.set_intros(1) set_rev)
  with assms have "\<not> is_space c \<and> (of_char c :: nat) < 128" by (simp add: list_all_iff)
  then have "rstrip_rev (rev s) = rev s" by (simp add: r rstrip_rev_keep)
  with 1 show ?thesis by (simp add: strip_def)
qed

lemma strip_dot0_no_dot: "CHR ''.'' \<notin> set s \<Longrightarrow> strip_dot0 s = s"
proof -
  assume a: "CHR ''.'' \<notin> set s"
  have "drop (length s - 2) s \<noteq> ''.0''"
  proof
    assume "drop (length s - 2) s = ''.0''"
    then have "CHR ''.'' \<in> set (drop (length s - 2) s)" by simp
    then have "CHR ''.'' \<in> set s" by (rule in_set_dropD)
    with a show False by simp
  qed
  then show ?thesis by (simp add: strip_dot0_def)
qed

lemma remove_commas_no_comma: "CHR '','' \<notin> set s \<Longrightarrow> remove_commas s = s"
  by (auto simp: remove_commas_def filter_id_conv)

lemma to_numeric_digits:
  assumes "list_all is_digit ds" "ds \<noteq> []"
  shows "to_numeric ds = Some (Int_num (int (digits_val ds)))"
    and "to_numeric (CHR ''-'' # ds) = Some (Int_num (- int (digits_val ds)))"
proof -
  obtain d r where ds: "ds = d # r" using assms(2) by (cases ds) auto
  with assms(1) have d: "is_digit d" by simp
  have tw: "takeWhile is_digit ds = ds" "dropWhile is_digit ds = []"
    using assms(1) by (simp_all add: list_all_iff)
  have "split_sign ds = (False, ds)"
    using is_digit_plain [OF d] by (simp add: split_sign_def ds)
  then show "to_numeric ds = Some (Int_num (int (digits_val ds)))"
    using assms by (simp add: to_numeric_def Let_def tw list_all_iff)
  have "split_sign (CHR ''-'' # ds) = (True, ds)"
    by (simp add: split_sign_def)
  then show "to_numeric (CHR ''-'' # ds) = Some (Int_num (- int (digits_val ds)))"
    using assms by (simp add: to_numeric_def Let_def tw list_all_iff)
qed

lemma str_int_chars: "list_all (\<lambda>c. is_digit c \<or> c = CHR ''-'') (str_int n)"
  using str_nat_digits [of "nat n"] str_nat_digits [of "nat (- n)"]
  by (auto simp: str_int_def list_all_iff)

lemma to_numeric_str_int: "to_numeric (str_int n) = Some (Int_num n)"
  using to_numeric_digits [OF str_nat_digits str_nat_nonempty]
  by (simp add: str_int_def digits_val_str_nat)

lemma clean_str_int: "clean (str_int n) = str_int n"
proof -
  have m: "\<not> is_space (CHR ''-'')" "(of_char (CHR ''-'') :: nat) < 128"
    by (simp_all add: is_space_def)
  have c: "\<And>c. c \<in> set (str_int n) \<Longrightarrow> is_digit c \<or> c = CHR ''-''"
    using str_int_chars [of n] by (simp add: list_all_iff)
  have p: "\<And>c. c \<in> set (str_int n) \<Longrightarrow>
      c \<noteq> CHR '','' \<and> \<not> is_space c \<and> (of_char c :: nat) < 128 \<and> c \<noteq> CHR ''.''"
    using c is_digit_plain m by blast
  have 1: "remove_commas (str_int n) = str_int n"
    by (rule remove_commas_no_comma) (use p in blast)
  have 2: "strip (str_int n) = str_int n"
    by (rule strip_no_space) (use p in \<open>simp add: list_all_iff\<close>)
  have 3: "strip_dot0 (str_int n) = str_int n"
    by (rule strip_dot0_no_dot) (use p in blast)
  show ?thesis by (simp add: clean_def 1 2 3)
qed

lemma those_length: "those xs = Some ys \<Longrightarrow> length ys = length xs"
  by (induction xs arbitrary: ys) (auto split: option.splits)

lemma those_map_Some: "(\<And>x. x \<in> set xs \<Longrightarrow> f x = Some (g x)) \<Longrightarrow> those (map f xs) = Some (map g xs)"
  by (induction xs) auto

lemma int64_exact_float: "exact_float v \<or> is_int64 v \<Longrightarrow> int64 (fillna0_astype_int v)"
  by (cases v) (auto simp: exact_float_def is_int64_def int64_def fillna0_astype_int_def)

lemma normalize_rooms_int64:
  assumes "normalize_rooms col = Some ns"
  shows "length ns = length col" "list_all int64 ns"
proof -
  from assms obtain vs where vs: "those (map (\<lambda>v. to_numeric (clean (astype_str v))) col) = Some vs"
    and c: "fillna0_astype_int_column vs = Some ns"
    by (auto simp: normalize_rooms_def split: bind_splits)
  from c have ns: "ns = map fillna0_astype_int vs"
    and k: "list_all is_int64 vs \<or> list_all exact_float vs"
    by (auto simp: fillna0_astype_int_column_def split: if_splits)
  from those_length [OF vs] show "length ns = length col" by (simp add: ns)
  from k have "\<forall>v \<in> set vs. exact_float v \<or> is_int64 v" by (auto simp: list_all_iff)
  then show "list_all int64 ns"
    by (simp add: ns list_all_iff int64_exact_float)
qed

lemma normalize_rooms_written:
  assumes "list_all int64 ns" "\<And>n. astype_str (f n) = str_int n"
  shows "normalize_rooms (map f ns) = Some ns"
proof -
  have "those (map (\<lambda>v. to_numeric (clean (astype_str v))) (map f ns)) = Some (map Int_num ns)"
    unfolding map_map comp_def
    by (rule those_map_Some) (simp add: assms(2) clean_str_int to_numeric_str_int)
  moreover have "list_all is_int64 (map Int_num ns)"
    using assms(1) by (simp add: list_all_iff is_int64_def)
  ultimately show ?thesis
    by (simp add: normalize_rooms_def fillna0_astype_int_column_def comp_def
        fillna0_astype_int_def)
qed

subsection \<open>Columns\<close>

lemma map_of_set_column: "map_of (set_column df c vs) = (map_of df)(c \<mapsto> vs)"
  by (induction df c vs rule: set_column.induct) (auto simp: fun_eq_iff)

lemma fst_set_column:
  "map fst (set_column df c vs) = (if has_column df c then map fst df else map fst df @ [c])"
  by (induction df c vs rule: set_column.induct) (auto simp: has_column_def)

lemma distinct_set_column:
  "distinct (map fst df) \<Longrightarrow> distinct (map fst (set_column df c vs))"
  by (simp add: fst_set_column has_column_def)

lemma set_set_column:
  "set (set_column df c vs) \<subseteq> insert (c, vs) (set df)"
  by (induction df c vs rule: set_column.induct) auto

lemma has_column_set_column: "has_column (set_column df c vs) k = (k = c \<or> has_column df k)"
  by (auto simp: fst_set_column has_column_def)

lemma has_column_map_of: "has_column df c = (map_of df c \<noteq> None)"
  by (simp add: has_column_def map_of_eq_None_iff)

lemma len_set_column:
  "df \<noteq> [] \<Longrightarrow> length vs = len df \<Longrightarrow> len (set_column df c vs) = len df"
  by (cases df) (auto simp: len_def)

lemma rect_set_column:
  assumes "rect df" "length vs = len df"
  shows "rect (set_column df c vs) \<and> len (set_column df c vs) = len df"
proof (cases df)
  case Nil
  with assms show ?thesis by (simp add: rect_def len_def)
next
  case (Cons a df')
  then have l: "len (set_column df c vs) = len df"
    using assms(2) by (simp add: len_set_column)
  have "\<forall>x \<in> set (set_column df c vs). case x of (k, ws) \<Rightarrow> length ws = len df"
    using set_set_column [of df c vs] assms by (auto simp: rect_def list_all_iff)
  then show ?thesis by (simp add: rect_def list_all_iff l)
qed

subsection \<open>The loader gives a typed frame\<close>

lemma rect_column_length: "rect df \<Longrightarrow> map_of df c = Some vs \<Longrightarrow> length vs = len df"
  by (auto simp: rect_def list_all_iff dest: map_of_SomeD)

lemma others_plain_set_column:
  "others_plain df \<Longrightarrow> c = ''rooms_available'' \<or> (\<forall>v \<in> set vs. \<not> is_Integer v)
     \<Longrightarrow> others_plain (set_column df c vs)"
  using set_set_column [of df c vs] by (fastforce simp: others_plain_def)

lemma typed_intro:
  assumes "distinct (map fst df)" "rect df" "others_plain df" "has_column df ''status''"
    "map_of df ''rooms_available'' = Some (map Integer ns)" "list_all int64 ns"
  shows "typed df"
proof -
  have "\<And>c vs v. (c, vs) \<in> set df \<Longrightarrow> v \<in> set vs \<Longrightarrow>
      (if c = ''rooms_available'' then is_int64_cell v else \<not> is_Integer v)"
  proof -
    fix c vs v assume m: "(c, vs) \<in> set df" "v \<in> set vs"
    show "if c = ''rooms_available'' then is_int64_cell v else \<not> is_Integer v"
    proof (cases "c = ''rooms_available''")
      case True
      with m assms(1,5) have "vs = map Integer ns" by simp
      with m True assms(6) show ?thesis by (auto simp: is_int64_cell_def list_all_iff)
    next
      case False
      with m assms(3) show ?thesis by (auto simp: others_plain_def)
    qed
  qed
  then have "list_all (\<lambda>(c, vs). list_all (\<lambda>v. if c = ''rooms_available'' then is_int64_cell v
                                           else \<not> is_Integer v) vs) df"
    by (auto simp: list_all_iff)
  moreover have "has_column df ''rooms_available''"
    using assms(5) by (simp add: has_column_map_of)
  ultimately show ?thesis using assms by (simp add: typed_def)
qed

lemma normalize_frame_typed:
  assumes "distinct (map fst df0)" "rect df0" "others_plain df0" "normalize_frame df0 = Inr df"
  shows "typed df"
proof -
  define df1 where "df1 = (if \<not> has_column df0 ''rooms_available''
                 then set_column df0 ''rooms_available'' (replicate (len df0) (Integer 0))
                 else df0)"
  have d1: "distinct (map fst df1)" "rect df1" "others_plain df1" "len df1 = len df0"
    using assms(1-3) by (auto simp: df1_def distinct_set_column rect_set_column others_plain_set_column)
  from assms(4) obtain col ns where col: "map_of df1 ''rooms_available'' = Some col"
    and ns: "normalize_rooms col = Some ns"
    and df: "df = (let df2 = set_column df1 ''rooms_available'' (map Integer ns)
                in (if \<not> has_column df2 ''status''
                        then set_column df2 ''status'' (map (\<lambda>x. Str (status_label x)) ns)
                        else df2))"
    by (auto simp: normalize_frame_def df1_def [symmetric] Let_def split: option.splits)
  define df2 where "df2 = set_column df1 ''rooms_available'' (map Integer ns)"
  have ln: "length ns = len df1"
    using normalize_rooms_int64(1) [OF ns] rect_column_length [OF d1(2) col] by simp
  have i64: "list_all int64 ns" using ns by (rule normalize_rooms_int64(2))
  have d2: "distinct (map fst df2)" "rect df2" "others_plain df2" "len df2 = len df1"
    "map_of df2 ''rooms_available'' = Some (map Integer ns)"
    using d1 ln by (auto simp: df2_def distinct_set_column rect_set_column others_plain_set_column map_of_set_column)
  show ?thesis
  proof (cases "has_column df2 ''status''")
    case True
    then have "df = df2" using df by (simp add: df2_def)
    with d2 True i64 show ?thesis by (simp add: typed_intro)
  next
    case False
    then have e: "df = set_column df2 ''status'' (map (\<lambda>x. Str (status_label x)) ns)"
      using df by (simp add: df2_def)
    show ?thesis
      unfolding e
      by (rule typed_intro [where ns = ns])
         (use d2 ln i64 in \<open>auto simp: distinct_set_column rect_set_column others_plain_set_column
            map_of_set_column has_column_set_column is_Integer_def\<close>)
  qed
qed

lemma read_csv_wf:
  assumes "wf_table t"
  shows "\<exists>df0. read_csv (Parsed t) = Some df0 \<and> distinct (map fst df0) \<and> rect df0
           \<and> others_plain df0 \<and> map fst df0 = map fst t"
proof -
  define h where "h = (\<lambda>v. case v of None \<Rightarrow> NaN | Some s \<Rightarrow> Str s)"
  define df0 where "df0 = map (\<lambda>(c, vs). (c, map h vs)) t"
  have r: "read_csv (Parsed t) = Some df0"
    by (simp add: read_csv_def df0_def h_def)
  have f: "map fst df0 = map fst t"
    by (simp add: df0_def case_prod_beta comp_def)
  have "rect df0"
  proof (cases t)
    case Nil
    then show ?thesis by (simp add: rect_def df0_def)
  next
    case (Cons a t')
    then have "len df0 = length (snd (hd t))"
      by (auto simp: df0_def len_def split: prod.splits)
    then show ?thesis
      using assms by (auto simp: rect_def wf_table_def list_all_iff df0_def)
  qed
  moreover have "others_plain df0"
    by (auto simp: others_plain_def df0_def h_def is_Integer_def split: option.splits)
  ultimately show ?thesis using r f assms by (simp add: wf_table_def)
qed

lemma safe_read_csv_typed:
  assumes "fs path = Some (Parsed t)" "wf_table t" "safe_read_csv fs path = Inr df"
  shows "typed df"
proof -
  from read_csv_wf [OF assms(2)] obtain df0 where
    r: "read_csv (Parsed t) = Some df0" and d: "distinct (map fst df0)" "rect df0" "others_plain df0"
    by blast
  from assms(1,3) r have "normalize_frame df0 = Inr df"
    by (simp add: safe_read_csv_def)
  with d show ?thesis by (rule normalize_frame_typed)
qed

subsection \<open>Reading a written frame again\<close>

lemma set_column_reread:
  assumes "distinct (map fst df)" "map_of df c = Some col"
    "\<And>k vs. (k, vs) \<in> set df \<Longrightarrow> k \<noteq> c \<Longrightarrow> map g vs = vs"
  shows "set_column (map (\<lambda>(k, vs). (k, map g vs)) df) c col = df"
  using assms
proof (induction df)
  case Nil
  then show ?case by simp
next
  case (Cons a df)
  obtain k vs where a: "a = (k, vs)" by (cases a)
  show ?case
  proof (cases "k = c")
    case True
    have "map (\<lambda>(k, vs). (k, map g vs)) df = df"
    proof (rule map_idI)
      fix x assume x: "x \<in> set df"
      obtain k' vs' where x': "x = (k', vs')" by (cases x)
      with x Cons.prems(1) a True have "k' \<noteq> c" by force
      with Cons.prems(3) [of k' vs'] x x' show "(case x of (k, vs) \<Rightarrow> (k, map g vs)) = x"
        by simp
    qed
    with True a Cons.prems(2) show ?thesis by simp
  next
    case False
    with a Cons.prems have "set_column (map (\<lambda>(k, vs). (k, map g vs)) df) c col = df"
      by (intro Cons.IH) auto
    moreover have "map g vs = vs" using Cons.prems(3) [of k vs] a False by simp
    ultimately show ?thesis using a False by simp
  qed
qed

lemma typed_rooms_column:
  assumes "typed df"
  obtains ns where "map_of df ''rooms_available'' = Some (map Integer ns)" "list_all int64 ns"
proof -
  from assms obtain col where col: "map_of df ''rooms_available'' = Some col"
    by (auto simp: typed_def has_column_map_of)
  then have "(''rooms_available'', col) \<in> set df" by (rule map_of_SomeD)
  with assms have a: "\<forall>v \<in> set col. is_int64_cell v"
    by (auto simp: typed_def list_all_iff)
  define ns where "ns = map (\<lambda>v. case v of Integer n \<Rightarrow> n | _ \<Rightarrow> 0) col"
  from a have "col = map Integer ns \<and> list_all int64 ns"
    unfolding ns_def by (induction col) (auto simp: is_int64_cell_def split: cell.splits)
  with col that show thesis by blast
qed

lemma normalize_frame_reread:
  assumes "typed df"
  shows "\<exists>df0. read_csv (to_csv df) = Some df0 \<and> normalize_frame df0 = Inr df"
proof -
  define g where "g = (\<lambda>v. case v of Integer n \<Rightarrow> Str (str_int n) | _ \<Rightarrow> v)"
  define df0 where "df0 = map (\<lambda>(k, vs). (k, map g vs)) df"
  have r: "read_csv (to_csv df) = Some df0"
    by (auto simp: read_csv_def to_csv_def df0_def g_def comp_def case_prod_beta
        split: cell.splits intro!: map_cong)
  from assms obtain ns where ns: "map_of df ''rooms_available'' = Some (map Integer ns)"
    and i64: "list_all int64 ns"
    by (rule typed_rooms_column)
  have d: "distinct (map fst df)" using assms by (simp add: typed_def)
  have f: "map fst df0 = map fst df"
    by (simp add: df0_def case_prod_beta comp_def)
  have hc: "has_column df0 c = has_column df c" for c
    by (simp add: has_column_def f)
  have m0: "map_of df0 ''rooms_available'' = Some (map (\<lambda>n. Str (str_int n)) ns)"
    using ns by (simp add: df0_def map_of_map g_def comp_def)
  have th: "normalize_rooms (map (\<lambda>n. Str (str_int n)) ns) = Some ns"
    using i64 by (rule normalize_rooms_written) (simp add: astype_str_def)
  have plain: "map g vs = vs" if "(k, vs) \<in> set df" "k \<noteq> ''rooms_available''" for k vs
  proof (rule map_idI)
    fix v assume "v \<in> set vs"
    with that assms have "\<not> is_Integer v" by (auto simp: typed_def list_all_iff)
    then show "g v = v" by (simp add: g_def is_Integer_def split: cell.splits)
  qed
  have s: "set_column df0 ''rooms_available'' (map Integer ns) = df"
    unfolding df0_def using d ns plain by (rule set_column_reread)
  have "normalize_frame df0 = Inr df"
    using assms th by (simp add: normalize_frame_def hc m0 s typed_def)
  with r show ?thesis by blast
qed

lemma safe_read_csv_written:
  "typed df \<Longrightarrow> fs path = Some (to_csv df) \<Longrightarrow> safe_read_csv fs path = Inr df"
  using normalize_frame_reread [of df] by (auto simp: safe_read_csv_def)

subsection \<open>Assignments through \<open>df.at\<close>\<close>

lemma map_of_set_at:
  "map_of (set_at df i c v) k =
     (if k = c then map_option (\<lambda>vs. vs[i := v]) (map_of df c) else map_of df k)"
  by (induction df) (auto simp: set_at_def)

lemma fst_set_at: "map fst (set_at df i c v) = map fst df"
  by (induction df) (auto simp: set_at_def)

lemma len_set_at: "len (set_at df i c v) = len df"
  by (cases df) (auto simp: set_at_def len_def)

lemma has_column_set_at: "has_column (set_at df i c v) k = has_column df k"
  by (simp add: has_column_def fst_set_at)

lemma rect_set_at: "rect df \<Longrightarrow> rect (set_at df i c v)"
  by (auto simp: rect_def len_set_at list_all_iff) (auto simp: set_at_def split: if_splits)

lemma at_set_at:
  "at (set_at df i c v) j k =
     (if k = c \<and> j = i \<and> at df i c \<noteq> None then Some v else at df j k)"
  by (auto simp: at_def map_of_set_at split: option.splits)

lemma at_mutated:
  assumes "at df i ''rooms_available'' \<noteq> None" "at df i ''status'' \<noteq> None"
  shows "at (mutated df i v) j k =
     (if j = i \<and> k = ''rooms_available'' then Some (Integer v)
      else if j = i \<and> k = ''status'' then Some (Str (status_label v))
      else at df j k)"
  using assms by (auto simp: mutated_def at_set_at)

lemma fst_mutated: "map fst (mutated df i v) = map fst df"
  by (simp add: mutated_def fst_set_at)

lemma len_mutated: "len (mutated df i v) = len df"
  by (simp add: mutated_def len_set_at)

lemma map_of_mutated_other:
  "k \<noteq> ''rooms_available'' \<Longrightarrow> k \<noteq> ''status'' \<Longrightarrow> map_of (mutated df i v) k = map_of df k"
  by (simp add: mutated_def map_of_set_at)

lemma typed_mutated:
  assumes "typed df" "int64 v"
  shows "typed (mutated df i v)"
proof -
  have "\<And>c vs x. (c, vs) \<in> set (mutated df i v) \<Longrightarrow> x \<in> set vs
          \<Longrightarrow> (if c = ''rooms_available'' then is_int64_cell x else \<not> is_Integer x)"
  proof -
    fix c vs x assume m: "(c, vs) \<in> set (mutated df i v)" "x \<in> set vs"
    have d: "distinct (map fst (mutated df i v))"
      using assms by (simp add: fst_mutated typed_def)
    from m(1) d have "map_of (mutated df i v) c = Some vs" by simp
    then obtain ws where ws: "map_of df c = Some ws"
      and vs: "vs = (if c = ''rooms_available'' then ws[i := Integer v]
                     else if c = ''status'' then ws[i := Str (status_label v)] else ws)"
      by (auto simp: mutated_def map_of_set_at split: if_splits)
    from ws have "(c, ws) \<in> set df" by (rule map_of_SomeD)
    with assms have old: "\<forall>y \<in> set ws. if c = ''rooms_available'' then is_int64_cell y
        else \<not> is_Integer y"
      by (auto simp: typed_def list_all_iff)
    from m(2) vs have "x \<in> set ws \<or> (c = ''rooms_available'' \<and> x = Integer v)
        \<or> (c = ''status'' \<and> x = Str (status_label v))"
      by (auto split: if_splits dest: set_update_subset_insert [THEN subsetD])
    with old assms(2) show "if c = ''rooms_available'' then is_int64_cell x else \<not> is_Integer x"
      by (auto simp: is_Integer_def is_int64_cell_def)
  qed
  then have "list_all (\<lambda>(c, vs). list_all (\<lambda>v. if c = ''rooms_available'' then is_int64_cell v
                                           else \<not> is_Integer v) vs) (mutated df i v)"
    by (auto simp: list_all_iff)
  moreover have "rect (mutated df i v)"
    using assms by (simp add: mutated_def rect_set_at typed_def)
  ultimately show ?thesis
    using assms by (simp add: typed_def fst_mutated has_column_def)
qed

lemma typed_at:
  assumes "typed df" "i < len df"
  shows "\<exists>c. at df i ''rooms_available'' = Some (Integer c) \<and> int64 c"
    and "at df i ''status'' \<noteq> None"
proof -
  from assms(1) obtain ns where ns: "map_of df ''rooms_available'' = Some (map Integer ns)"
    and i64: "list_all int64 ns"
    by (rule typed_rooms_column)
  have r: "rect df" using assms(1) by (simp add: typed_def)
  from rect_column_length [OF r ns] assms(2) i64
  show "\<exists>c. at df i ''rooms_available'' = Some (Integer c) \<and> int64 c"
    by (simp add: at_def ns list_all_length)
  from assms(1) obtain st where st: "map_of df ''status'' = Some st"
    by (auto simp: typed_def has_column_map_of)
  from rect_column_length [OF r st] assms(2)
  show "at df i ''status'' \<noteq> None"
    by (simp add: at_def st)
qed

subsection \<open>The matcher reads the name columns only\<close>



lemma first_true_props:
  assumes "any m"
  shows "first_true m < length m" "m ! first_true m" "\<And>j. j < first_true m \<Longrightarrow> \<not> m ! j"
proof -
  have "True \<in> set m \<Longrightarrow> length (takeWhile Not m) < length m \<and> m ! length (takeWhile Not m)
      \<and> (\<forall>j < length (takeWhile Not m). \<not> m ! j)"
    by (induction m) (auto simp: nth_Cons split: nat.splits)
  with assms show "first_true m < length m" "m ! first_true m"
    "\<And>j. j < first_true m \<Longrightarrow> \<not> m ! j"
    by (simp_all add: first_true_def any_def)
qed

lemma length_or_where:
  assumes "rect df" "length cand = len df" "or_where df c test cand = Some r"
  shows "length r = len df"
proof (cases "map_of df c")
  case None
  with assms show ?thesis by (simp add: or_where_def)
next
  case (Some col)
  with assms(3) obtain bs where bs: "those (map (\<lambda>v. test (strip (astype_str v))) col) = Some bs"
    and r: "r = map2 (\<or>) cand bs"
    by (auto simp: or_where_def)
  from those_length [OF bs] rect_column_length [OF assms(1) Some] have "length bs = len df"
    by simp
  with assms(2) r show ?thesis by simp
qed

lemma length_stage:
  assumes "rect df" "length cand = len df" "stage df test cand = Some r"
  shows "length r = len df"
proof -
  from assms(3) obtain c1 where c1: "or_where df ''name'' test cand = Some c1"
    and r: "or_where df ''hotel_name'' test c1 = Some r"
    by (auto simp: stage_def split: bind_splits)
  from length_or_where [OF assms(1,2) c1] have "length c1 = len df" .
  from length_or_where [OF assms(1) this r] show ?thesis .
qed

lemma length_match_rows:
  assumes "rect df" "match_rows df t = Inr m"
  shows "length m = len df"
proof -
  define z where "z = replicate (len df) False"
  have lz: "length z = len df" by (simp add: z_def)
  define h where "h = strip t"
  note unfold = match_rows_def Let_def z_def [symmetric] h_def [symmetric]
  from assms(2) obtain c1 where c1: "stage df (exact_equal h) z = Some c1"
    by (auto simp: unfold split: option.splits)
  have l1: "length c1 = len df" using assms(1) lz c1 by (rule length_stage)
  show ?thesis
  proof (cases "any c1")
    case True
    with assms(2) c1 have "m = c1" by (simp add: unfold)
    with l1 show ?thesis by simp
  next
    case n1: False
    with assms(2) c1 obtain c2 where c2: "stage df (caseless_equal h) c1 = Some c2"
      by (auto simp: unfold split: option.splits)
    have l2: "length c2 = len df" using assms(1) l1 c2 by (rule length_stage)
    show ?thesis
    proof (cases "any c2 \<or> \<not> (has_column df ''name'' \<or> has_column df ''hotel_name'')")
      case True
      with assms(2) c1 n1 c2 have "m = c2" by (auto simp: unfold)
      with l2 show ?thesis by simp
    next
      case False
      with assms(2) c1 n1 c2 obtain pat where "stage df (search_lowered pat) c2 = Some m"
        by (auto simp: unfold split: option.splits)
      with assms(1) l2 show ?thesis by (rule length_stage)
    qed
  qed
qed

subsection \<open>The writer\<close>

lemma mkstemp_inner_fresh:
  "mkstemp_inner fs dir pre suf names = Inr file \<Longrightarrow>
     fs file = None \<and> (\<exists>name \<in> set names. file = path_join dir (pre @ name @ suf))"
  by (induction names) (auto simp: Let_def split: if_splits)

lemma atomic_write_csv_result:
  assumes "fs path \<noteq> None" "atomic_write_csv df path names fs = Inr fs'"
  shows "fs' = fs(path \<mapsto> to_csv df)"
proof -
  from assms(2) obtain tmp where
    m: "mkstemp_inner fs (if dirname path = [] then ''.'' else dirname path) ''tmp'' ''.csv'' names
          = Inr tmp"
    and r: "fs' = os_replace tmp path ((fs(tmp \<mapsto> Unreadable))(tmp \<mapsto> to_csv df))"
    by (auto simp: atomic_write_csv_def mkstemp_def Let_def split: sum.splits)
  from mkstemp_inner_fresh [OF m] have f: "fs tmp = None" by simp
  with assms(1) have "tmp \<noteq> path" by auto
  with f r show ?thesis
    by (auto simp: os_replace_def fun_eq_iff)
qed

lemma atomic_write_csv_fails:
  "atomic_write_csv df path names fs = Inl e \<Longrightarrow> e = FileExistsError"
proof -
  have "mkstemp_inner fs d p s names = Inl e \<Longrightarrow> e = FileExistsError" for d p s
    by (induction names) (auto simp: Let_def split: if_splits)
  then show "atomic_write_csv df path names fs = Inl e \<Longrightarrow> e = FileExistsError"
    by (auto simp: atomic_write_csv_def mkstemp_def Let_def split: sum.splits)
qed

subsection \<open>What a successful call has done\<close>

lemma update_first_Inr:
  assumes "update_first new names fs path hn = (Inr v, fs')"
  obtains df m c where
    "safe_read_csv fs path = Inr df" "match_rows df hn = Inr m" "any m"
    "at df (first_true m) ''rooms_available'' = Some (Integer c)"
    "v = new c" "int64 v" "fs' = fs(path \<mapsto> to_csv (mutated df (first_true m) (new c)))"
proof -
  from assms have ex: "fs path \<noteq> None"
    by (auto simp: update_first_def split: if_splits)
  from assms ex obtain df where df: "safe_read_csv fs path = Inr df"
    by (auto simp: update_first_def split: sum.splits)
  from assms ex df obtain m where m: "match_rows df hn = Inr m"
    by (auto simp: update_first_def split: sum.splits)
  from assms ex df m have a: "any m"
    by (auto simp: update_first_def split: if_splits)
  from assms ex df m a obtain c where
    c: "at df (first_true m) ''rooms_available'' = Some (Integer c)"
    by (auto simp: update_first_def Let_def split: option.splits cell.splits)
  from assms ex df m a c have i: "int64 (new c)"
    by (auto simp: update_first_def Let_def split: if_splits)
  then have n: "\<not> (2 ^ 63 \<le> new c \<and> new c < 2 ^ 64)"
    by (simp add: int64_def)
  from assms ex df m a c i n have
    w: "atomic_write_csv (mutated df (first_true m) (new c)) path names fs = Inr fs'"
    and v: "v = new c"
    by (auto simp: update_first_def Let_def mutated_def split: sum.splits)
  from atomic_write_csv_result [OF ex w] df m a c v i that show thesis by blast
qed

lemma update_first_succeeds:
  assumes "safe_read_csv fs path = Inr df" "match_rows df hn = Inr m" "any m"
    "at df (first_true m) ''rooms_available'' = Some (Integer c)" "int64 (new c)"
    "atomic_write_csv (mutated df (first_true m) (new c)) path names fs = Inr fs'"
  shows "update_first new names fs path hn
           = (Inr (new c), fs(path \<mapsto> to_csv (mutated df (first_true m) (new c))))"
proof -
  from assms(1) have ex: "fs path \<noteq> None"
    by (auto simp: safe_read_csv_def split: option.splits)
  from assms(5) have n: "\<not> (2 ^ 63 \<le> new c \<and> new c < 2 ^ 64)"
    by (simp add: int64_def)
  from atomic_write_csv_result [OF ex assms(6)] assms ex n show ?thesis
    by (simp add: update_first_def Let_def mutated_def)
qed

lemma update_first_overflow:
  assumes "safe_read_csv fs path = Inr df" "match_rows df hn = Inr m" "any m"
    "at df (first_true m) ''rooms_available'' = Some (Integer c)"
    "2 ^ 63 \<le> new c" "new c < 2 ^ 64"
  shows "update_first new names fs path hn = (Inl AssertionError, fs)"
proof -
  from assms(1) have ex: "fs path \<noteq> None"
    by (auto simp: safe_read_csv_def split: option.splits)
  with assms show ?thesis
    by (simp add: update_first_def Let_def)
qed

lemma increment_overflow:
  assumes "safe_read_csv fs path = Inr df" "match_rows df hn = Inr m" "any m"
    "at df (first_true m) ''rooms_available'' = Some (Integer c)"
    "0 < a" "2 ^ 63 \<le> c + a" "c + a < 2 ^ 64"
  shows "increment_room_availability names fs path hn a = (Inl AssertionError, fs)"
  using assms(5) update_first_overflow [OF assms(1-4), of "\<lambda>current. current + a", OF assms(6,7)]
  by (simp add: increment_room_availability_def)

lemma update_first_typed:
  assumes "safe_read_csv fs path = Inr df" "typed df"
    "update_first new names fs path hn = (Inr v, fs')"
  obtains m c where
    "match_rows df hn = Inr m" "any m" "first_true m < len df"
    "at df (first_true m) ''rooms_available'' = Some (Integer c)"
    "at df (first_true m) ''status'' \<noteq> None"
    "v = new c" "fs' = fs(path \<mapsto> to_csv (mutated df (first_true m) v))"
    "safe_read_csv fs' path = Inr (mutated df (first_true m) v)"
proof -
  from assms(3) obtain df' m c where
    df: "safe_read_csv fs path = Inr df'" and m: "match_rows df' hn = Inr m" and a: "any m"
    and c: "at df' (first_true m) ''rooms_available'' = Some (Integer c)"
    and v: "v = new c" and i64: "int64 v"
    and fs': "fs' = fs(path \<mapsto> to_csv (mutated df' (first_true m) (new c)))"
    by (rule update_first_Inr)
  from df assms(1) have e: "df' = df" by simp
  have r: "rect df" using assms(2) by (simp add: typed_def)
  have i: "first_true m < len df"
    using first_true_props(1) [OF a] length_match_rows [OF r m [unfolded e]] by simp
  have s: "at df (first_true m) ''status'' \<noteq> None"
    using typed_at(2) [OF assms(2) i] .
  have "typed (mutated df (first_true m) v)"
    using assms(2) i64 by (rule typed_mutated)
  then have "safe_read_csv fs' path = Inr (mutated df (first_true m) v)"
    by (rule safe_read_csv_written) (simp add: fs' v e)
  with m a i c s v fs' e that show thesis by blast
qed

lemma can_create_temp_iff:
  "can_create_temp names fs path =
     (\<exists>tmp. mkstemp_inner fs (if dirname path = [] then ''.'' else dirname path) ''tmp'' ''.csv'' names = Inr tmp)"
proof -
  have "(\<exists>name \<in> set names. fs (path_join d (p @ name @ s)) = None)
      = (\<exists>tmp. mkstemp_inner fs d p s names = Inr tmp)" for d p s
    by (induction names) (auto simp: Let_def)
  then show ?thesis by (simp only: can_create_temp_def)
qed

lemma can_create_temp_write:
  "can_create_temp names fs path \<Longrightarrow> \<exists>fs'. atomic_write_csv df path names fs = Inr fs'"
  by (auto simp: can_create_temp_iff atomic_write_csv_def mkstemp_def Let_def)

lemma update_first_total:
  assumes "safe_read_csv fs path = Inr df" "typed df" "match_rows df hn = Inr m" "any m"
    "can_create_temp names fs path"
  obtains c where "at df (first_true m) ''rooms_available'' = Some (Integer c)" "int64 c"
    "int64 (new c) \<Longrightarrow> update_first new names fs path hn
       = (Inr (new c), fs(path \<mapsto> to_csv (mutated df (first_true m) (new c))))"
proof -
  have r: "rect df" using assms(2) by (simp add: typed_def)
  have i: "first_true m < len df"
    using first_true_props(1) [OF assms(4)] length_match_rows [OF r assms(3)] by simp
  from typed_at(1) [OF assms(2) i] obtain c where
    c: "at df (first_true m) ''rooms_available'' = Some (Integer c)" and i64: "int64 c" by blast
  from can_create_temp_write [OF assms(5)] obtain fs' where
    w: "atomic_write_csv (mutated df (first_true m) (new c)) path names fs = Inr fs'" by blast
  have "update_first new names fs path hn
       = (Inr (new c), fs(path \<mapsto> to_csv (mutated df (first_true m) (new c))))"
    if "int64 (new c)"
    using assms(1,3,4) c that w by (rule update_first_succeeds)
  with c i64 that show thesis by blast
qed

lemma at_mutated_rooms:
  assumes "typed df" "i < len df"
  shows "at (mutated df i v) i ''rooms_available'' = Some (Integer v)"
    and "at (mutated df i v) i ''status'' = Some (Str (status_label v))"
    and "j \<noteq> i \<or> (k \<noteq> ''rooms_available'' \<and> k \<noteq> ''status'')
           \<Longrightarrow> at (mutated df i v) j k = at df j k"
  using typed_at [OF assms] by (auto simp: at_mutated)

lemma int64_decrement: "int64 c \<Longrightarrow> 0 < a \<Longrightarrow> int64 (max 0 (c - a))"
  by (auto simp: int64_def)

subsection \<open>A successful call, in one statement\<close>

lemma call_is_update:
  assumes "decrement_room_availability names fs path hn a = (Inr v, fs')
     \<or> increment_room_availability names fs path hn a = (Inr v, fs')"
  obtains new where "update_first new names fs path hn = (Inr v, fs')" "0 < a"
  using assms
  by (auto simp: decrement_room_availability_def increment_room_availability_def
      split: if_splits)

lemma successful_update:
  assumes "fs path = Some (Parsed t)" "wf_table t"
    "safe_read_csv fs path = Inr df" "match_rows df hn = Inr m"
    "update_first new names fs path hn = (Inr v, fs')"
  obtains c where "typed df" "any m" "first_true m < len df"
    "at df (first_true m) ''rooms_available'' = Some (Integer c)" "v = new c"
    "fs' = fs(path \<mapsto> to_csv (mutated df (first_true m) v))"
    "safe_read_csv fs' path = Inr (mutated df (first_true m) v)"
proof -
  have t: "typed df" using assms(1,2,3) by (rule safe_read_csv_typed)
  from update_first_typed [OF assms(3) t assms(5)] obtain m' c where
    m': "match_rows df hn = Inr m'"
    and f: "any m'" "first_true m' < len df"
    "at df (first_true m') ''rooms_available'' = Some (Integer c)"
    "v = new c" "fs' = fs(path \<mapsto> to_csv (mutated df (first_true m') v))"
    "safe_read_csv fs' path = Inr (mutated df (first_true m') v)"
    by blast
  from m' assms(4) have "m' = m" by simp
  with f t that show thesis by blast
qed

subsection \<open>What the loader keeps of the file\<close>

lemma map_of_read_csv:
  assumes "read_csv (Parsed t) = Some df0"
  shows "map_of df0 c = map_option (map (\<lambda>v. case v of None \<Rightarrow> NaN | Some s \<Rightarrow> Str s)) (map_of t c)"
    and "map fst df0 = map fst t"
proof -
  from assms have d: "df0 = map (\<lambda>(c, vs). (c, map (\<lambda>v. case v of None \<Rightarrow> NaN | Some s \<Rightarrow> Str s) vs)) t"
    by (simp add: read_csv_def)
  show "map_of df0 c = map_option (map (\<lambda>v. case v of None \<Rightarrow> NaN | Some s \<Rightarrow> Str s)) (map_of t c)"
    unfolding d by (induction t) auto
  show "map fst df0 = map fst t"
    unfolding d by (simp add: case_prod_beta comp_def)
qed

lemma normalize_frame_columns:
  assumes "normalize_frame df0 = Inr df"
  shows "map fst df = map fst df0 @ filter (\<lambda>c. \<not> has_column df0 c) [''rooms_available'', ''status'']"
    and "c \<noteq> ''rooms_available'' \<Longrightarrow> c \<noteq> ''status'' \<Longrightarrow> map_of df c = map_of df0 c"
    and "\<not> has_column df0 ''status'' \<Longrightarrow>
           \<exists>ns. map_of df ''rooms_available'' = Some (map Integer ns)
              \<and> map_of df ''status'' = Some (map (\<lambda>x. Str (status_label x)) ns)"
proof -
  define df1 where "df1 = (if \<not> has_column df0 ''rooms_available''
                 then set_column df0 ''rooms_available'' (replicate (len df0) (Integer 0))
                 else df0)"
  from assms obtain col ns where col: "map_of df1 ''rooms_available'' = Some col"
    and ns: "normalize_rooms col = Some ns"
    and df: "df = (let df2 = set_column df1 ''rooms_available'' (map Integer ns)
                in (if \<not> has_column df2 ''status''
                        then set_column df2 ''status'' (map (\<lambda>x. Str (status_label x)) ns)
                        else df2))"
    by (auto simp: normalize_frame_def df1_def [symmetric] Let_def split: option.splits)
  have h1: "has_column df1 ''rooms_available''"
    using col by (simp add: has_column_map_of)
  have f1: "map fst df1 = map fst df0 @ filter (\<lambda>c. \<not> has_column df0 c) [''rooms_available'']"
    by (simp add: df1_def fst_set_column)
  have s1: "has_column df1 ''status'' = has_column df0 ''status''"
    by (simp add: df1_def has_column_set_column)
  show "map fst df = map fst df0 @ filter (\<lambda>c. \<not> has_column df0 c) [''rooms_available'', ''status'']"
    using h1 by (simp add: df Let_def fst_set_column has_column_set_column f1 s1)
  show "c \<noteq> ''rooms_available'' \<Longrightarrow> c \<noteq> ''status'' \<Longrightarrow> map_of df c = map_of df0 c"
    by (simp add: df Let_def map_of_set_column df1_def)
  show "\<not> has_column df0 ''status'' \<Longrightarrow>
           \<exists>ns. map_of df ''rooms_available'' = Some (map Integer ns)
              \<and> map_of df ''status'' = Some (map (\<lambda>x. Str (status_label x)) ns)"
    by (auto simp: df Let_def map_of_set_column has_column_set_column s1)
qed

subsection \<open>The sample files, evaluated\<close>

lemma sunrise_loaded:
  "safe_read_csv sunrise_fs ''data/hotels.csv''
     = Inr [(''name'', [Str ''Sunrise Inn'']), (''rooms_available'', [Integer 10]),
            (''status'', [Str AVAILABLE])]"
  by code_simp


lemma sunrise_wf: "sunrise_fs ''data/hotels.csv'' = Some (Parsed sunrise_table)"
  "wf_table sunrise_table"
  by (simp add: sunrise_fs_def, code_simp)

lemma grand_wf: "grand_fs ''data/hotels.csv'' = Some (Parsed grand_table)"
  "wf_table grand_table"
  by (simp add: grand_fs_def, code_simp)

lemma grand_loaded:
  "safe_read_csv grand_fs ''data/hotels.csv''
     = Inr [(''name'', [Str ''Moon Lodge'', Str ''Grand Hotel'', Str ''Grand Hotel'']),
            (''city'', [Str ''Hue'', NaN, Str ''Da Nang'']),
            (''rooms_available'', [Integer 4, Integer 8, Integer 1200]),
            (''status'', [Str AVAILABLE, Str AVAILABLE, Str AVAILABLE])]"
  by code_simp

lemma grand_matched:
  "match_rows [(''name'', [Str ''Moon Lodge'', Str ''Grand Hotel'', Str ''Grand Hotel'']),
            (''city'', [Str ''Hue'', NaN, Str ''Da Nang'']),
            (''rooms_available'', [Integer 4, Integer 8, Integer 1200]),
            (''status'', [Str AVAILABLE, Str AVAILABLE, Str AVAILABLE])] ''Grand Hotel''
     = Inr [False, True, True]"
  by code_simp

lemma grand_decrement:
  "decrement_room_availability [''k3x9_q0z''] grand_fs ''data/hotels.csv'' ''Grand Hotel'' 1
     = (Inr 7, snd (decrement_room_availability [''k3x9_q0z''] grand_fs ''data/hotels.csv''
                      ''Grand Hotel'' 1))"
proof -
  have "fst (decrement_room_availability [''k3x9_q0z''] grand_fs ''data/hotels.csv''
               ''Grand Hotel'' 1) = Inr 7"
    by code_simp
  then show ?thesis by (simp add: prod_eq_iff)
qed

subsection \<open>The status labels\<close>

lemma labels_differ: "AVAILABLE \<noteq> UNAVAILABLE"
  by (simp add: AVAILABLE_def UNAVAILABLE_def)

lemma status_label_iff:
  "(status_label v = AVAILABLE) = (0 < v)" "(status_label v = UNAVAILABLE) = (\<not> 0 < v)"
  using labels_differ by (auto simp: status_label_def)

lemma loaded_status_derived:
  assumes "fs path = Some (Parsed t)" "wf_table t" "safe_read_csv fs path = Inr df"
    "''status'' \<notin> set (map fst t)" "j < len df"
  shows "\<exists>n. at df j ''rooms_available'' = Some (Integer n)
            \<and> at df j ''status'' = Some (Str (status_label n))"
proof -
  from assms(1,3) obtain df0 where r: "read_csv (Parsed t) = Some df0"
    and n: "normalize_frame df0 = Inr df"
    by (auto simp: safe_read_csv_def split: option.splits)
  have "\<not> has_column df0 ''status''"
    using assms(4) by (simp add: has_column_def map_of_read_csv(2) [OF r])
  from normalize_frame_columns(3) [OF n this] obtain ns where
    c: "map_of df ''rooms_available'' = Some (map Integer ns)"
    and s: "map_of df ''status'' = Some (map (\<lambda>x. Str (status_label x)) ns)"
    by blast
  have "typed df" using assms(1,2,3) by (rule safe_read_csv_typed)
  then have "rect df" by (simp add: typed_def)
  from rect_column_length [OF this c] assms(5) have "j < length ns" by simp
  then show ?thesis by (simp add: at_def c s)
qed

subsection \<open>Decimal literals\<close>











subsection \<open>Paths\<close>

lemma dirname_shape:
  assumes "dirname p \<noteq> []"
  shows "list_all is_slash (dirname p) \<or> \<not> is_slash (last (dirname p))"
proof -
  define head where "head = rev (dropWhile (\<lambda>c. \<not> is_slash c) (rev p))"
  have d: "dirname p = (if head \<noteq> [] \<and> \<not> list_all is_slash head
                        then rev (dropWhile is_slash (rev head)) else head)"
    by (simp add: dirname_def head_def Let_def)
  show ?thesis
  proof (cases "head \<noteq> [] \<and> \<not> list_all is_slash head")
    case True
    define r where "r = dropWhile is_slash (rev head)"
    from True d have e: "dirname p = rev r" by (simp add: r_def)
    with assms have "r \<noteq> []" by simp
    then have "\<not> is_slash (hd r)"
      unfolding r_def by (metis hd_dropWhile)
    with \<open>r \<noteq> []\<close> have "\<not> is_slash (last (rev r))" by (simp add: last_rev)
    with e show ?thesis by simp
  next
    case False
    with d assms show ?thesis by auto
  qed
qed

lemma dirname_path_join:
  assumes "d \<noteq> []" "list_all is_slash d \<or> \<not> is_slash (last d)"
    "f \<noteq> []" "\<forall>c \<in> set f. \<not> is_slash c"
  shows "dirname (path_join d f) = d"
proof -
  have hf: "\<not> is_slash (hd f)" using assms(3,4) by (cases f) auto
  have dw: "dropWhile (\<lambda>c. \<not> is_slash c) (rev f @ ys) = dropWhile (\<lambda>c. \<not> is_slash c) ys" for ys
    using assms(4) by (simp add: dropWhile_append)
  show ?thesis
  proof (cases "is_slash (last d)")
    case True
    with assms(2) have all: "list_all is_slash d" by simp
    from True assms(1) have "is_slash (hd (rev d))" by (simp add: hd_rev)
    then have "dropWhile (\<lambda>c. \<not> is_slash c) (rev d) = rev d"
      using assms(1) by (cases "rev d") auto
    then have "rev (dropWhile (\<lambda>c. \<not> is_slash c) (rev (d @ f))) = d"
      by (simp add: dw)
    moreover have "path_join d f = d @ f"
      using True hf assms(3) by (simp add: path_join_def)
    ultimately show ?thesis using all assms(1) by (simp add: dirname_def)
  next
    case False
    have j: "path_join d f = d @ CHR ''/'' # f"
      using False hf assms(1,3) by (simp add: path_join_def)
    have h: "rev (dropWhile (\<lambda>c. \<not> is_slash c) (rev (d @ CHR ''/'' # f))) = d @ ''/''"
      using dw [of "CHR ''/'' # rev d"] by (simp add: is_slash_def)
    have na: "\<not> list_all is_slash (d @ ''/'')"
      using False assms(1) by (auto simp: list_all_iff)
    have "\<not> is_slash (hd (rev d))" using False assms(1) by (simp add: hd_rev)
    then have "dropWhile is_slash (rev d) = rev d"
      using assms(1) by (cases "rev d") auto
    then have "rev (dropWhile is_slash (rev (d @ ''/''))) = d"
      by (simp add: is_slash_def)
    with h na show ?thesis by (simp add: dirname_def j Let_def)
  qed
qed

lemma mkstemp_same_directory:
  assumes "mkstemp_inner fs (if dirname path = [] then ''.'' else dirname path) ''tmp'' ''.csv''
             names = Inr tmp"
    "\<forall>n \<in> set names. CHR ''/'' \<notin> set n"
  shows "dirname tmp = (if dirname path = [] then ''.'' else dirname path)" "fs tmp = None"
proof -
  define d where "d = (if dirname path = [] then ''.'' else dirname path)"
  from mkstemp_inner_fresh [OF assms(1)] obtain n where n: "n \<in> set names"
    and tmp: "tmp = path_join d (''tmp'' @ n @ ''.csv'')" and fr: "fs tmp = None"
    by (auto simp: d_def)
  have 1: "d \<noteq> []" by (simp add: d_def)
  have 2: "list_all is_slash d \<or> \<not> is_slash (last d)"
    using dirname_shape [of path] by (auto simp: d_def is_slash_def)
  have 3: "\<forall>c \<in> set (''tmp'' @ n @ ''.csv''). \<not> is_slash c"
    using assms(2) n by (auto simp: is_slash_def)
  from dirname_path_join [OF 1 2 _ 3] show "dirname tmp = (if dirname path = [] then ''.'' else dirname path)"
    by (simp add: tmp d_def)
  show "fs tmp = None" by (rule fr)
qed

subsection \<open>The stages of the matcher\<close>

lemma none_marked: "\<not> any c \<Longrightarrow> c = replicate (length c) False"
  by (induction c) (auto simp: any_def)

lemma or_false: "length xs = n \<Longrightarrow> map2 (\<or>) (replicate n False) xs = xs"
  by (induction xs arbitrary: n) auto

lemma or_where_known:
  assumes "\<forall>x \<in> set (name_texts df). test x = Some (btest x)"
    "c = ''name'' \<or> c = ''hotel_name''"
  shows "or_where df c test cand
           = Some (case map_of df c of None \<Rightarrow> cand
                   | Some col \<Rightarrow> map2 (\<or>) cand (map (\<lambda>v. btest (strip (astype_str v))) col))"
proof (cases "map_of df c")
  case None
  then show ?thesis by (simp add: or_where_def)
next
  case (Some col)
  have "strip (astype_str v) \<in> set (name_texts df)" if "v \<in> set col" for v
    using that Some assms(2) by (auto simp: name_texts_def)
  with assms(1) have "those (map (\<lambda>v. test (strip (astype_str v))) col)
      = Some (map (\<lambda>v. btest (strip (astype_str v))) col)"
    by (intro those_map_Some) simp
  with Some show ?thesis by (simp add: or_where_def)
qed

lemma stage_known:
  assumes "rect df" "\<forall>x \<in> set (name_texts df). test x = Some (btest x)"
  shows "stage df test (replicate (len df) False) = Some (spec_stage df btest)"
proof -
  define n where "n = len df"
  define f where "f = (\<lambda>v. btest (strip (astype_str v)))"
  define c1 where "c1 = (case map_of df ''name'' of None \<Rightarrow> replicate n False
                         | Some col \<Rightarrow> map2 (\<or>) (replicate n False) (map f col))"
  define c2 where "c2 = (case map_of df ''hotel_name'' of None \<Rightarrow> c1
                         | Some col \<Rightarrow> map2 (\<or>) c1 (map f col))"
  have l: "length col = n" if "map_of df c = Some col" for c col
    using rect_column_length [OF assms(1) that] by (simp add: n_def)
  have s: "stage df test (replicate n False) = Some c2"
    unfolding stage_def c2_def c1_def f_def
    by (simp add: or_where_known [OF assms(2)])
  have c1: "c1 = (case map_of df ''name'' of None \<Rightarrow> replicate n False | Some col \<Rightarrow> map f col)"
    by (auto simp: c1_def or_false l split: option.splits)
  have l1: "length c1 = n"
    by (auto simp: c1 l split: option.splits)
  have "c2 = spec_stage df btest"
  proof (rule nth_equalityI)
    show "length c2 = length (spec_stage df btest)"
      by (auto simp: c2_def l1 l spec_stage_def n_def [symmetric] split: option.splits)
  next
    fix j assume "j < length c2"
    then have j: "j < n"
      by (auto simp: c2_def l1 l split: option.splits)
    have a1: "c1 ! j = (case at df j ''name'' of None \<Rightarrow> False | Some v \<Rightarrow> f v)"
      using j by (auto simp: c1 at_def l split: option.splits)
    have "c2 ! j = (c1 ! j \<or> (case at df j ''hotel_name'' of None \<Rightarrow> False | Some v \<Rightarrow> f v))"
      using j by (auto simp: c2_def at_def l l1 split: option.splits)
    with a1 show "c2 ! j = spec_stage df btest ! j"
      using j unfolding f_def by (simp add: spec_stage_def n_def [symmetric])
  qed
  with s show ?thesis by (simp add: n_def)
qed

lemma length_spec_stage: "length (spec_stage df test) = len df"
  by (simp add: spec_stage_def)

lemma spec_stage_no_columns:
  "\<not> has_column df ''name'' \<Longrightarrow> \<not> has_column df ''hotel_name''
     \<Longrightarrow> \<not> any (spec_stage df test)"
  by (auto simp: spec_stage_def any_def at_def has_column_map_of)

lemma match_rows_known:
  assumes "rect df"
    "\<forall>x \<in> set (name_texts df). caseless_equal (strip hn) x = Some (eq x)"
    "\<And>pat. Option.bind (lower (strip hn)) re_compile = Some pat \<Longrightarrow>
        \<forall>x \<in> set (name_texts df). search_lowered pat x = Some (srch pat x)"
  shows "match_rows df hn =
     (if any (spec_stage df (\<lambda>x. x = strip hn)) then Inr (spec_stage df (\<lambda>x. x = strip hn))
      else if any (spec_stage df eq) then Inr (spec_stage df eq)
      else if has_column df ''name'' \<or> has_column df ''hotel_name''
      then (case Option.bind (lower (strip hn)) re_compile of
              None \<Rightarrow> Inl Not_modelled
            | Some pat \<Rightarrow> Inr (spec_stage df (srch pat)))
      else Inr (spec_stage df eq))"
proof -
  define t where "t = strip hn"
  define z where "z = replicate (len df) False"
  define c1 where "c1 = spec_stage df (\<lambda>x. x = t)"
  define c2 where "c2 = spec_stage df eq"
  have s1: "stage df (exact_equal t) z = Some c1"
    unfolding z_def c1_def by (rule stage_known [OF assms(1)]) (simp add: exact_equal_def)
  have s2: "stage df (caseless_equal t) z = Some c2"
    unfolding z_def c2_def t_def by (rule stage_known [OF assms(1,2)])
  have s3: "stage df (search_lowered pat) z = Some (spec_stage df (srch pat))"
    if "Option.bind (lower t) re_compile = Some pat" for pat
    unfolding z_def by (rule stage_known [OF assms(1)]) (rule assms(3) [OF that [unfolded t_def]])
  have z1: "c1 = z" if "\<not> any c1"
    using none_marked [OF that] by (simp add: c1_def length_spec_stage z_def)
  have z2: "c2 = z" if "\<not> any c2"
    using none_marked [OF that] by (simp add: c2_def length_spec_stage z_def)
  note unfold = match_rows_def Let_def z_def [symmetric] t_def [symmetric]
  show ?thesis
  proof (cases "any c1")
    case True
    then show ?thesis
      by (simp add: unfold s1 c1_def [symmetric])
  next
    case n1: False
    show ?thesis
    proof (cases "any c2")
      case True
      have "stage df (exact_equal t) z = Some z" using s1 z1 [OF n1] by simp
      moreover have "\<not> any z" using n1 z1 [OF n1] by simp
      ultimately have "match_rows df hn = Inr c2"
        using True s2 by (simp add: unfold)
      with n1 True show ?thesis
        by (simp add: c1_def [symmetric] c2_def [symmetric] t_def [symmetric])
    next
      case False
      have 1: "match_rows df hn =
          (if \<not> (has_column df ''name'' \<or> has_column df ''hotel_name'') then Inr c2
           else (case Option.bind (lower t) re_compile of
                   None \<Rightarrow> Inl Not_modelled
                 | Some pat \<Rightarrow>
                    (case stage df (search_lowered pat) z of
                       None \<Rightarrow> Inl Not_modelled
                     | Some candidates \<Rightarrow> Inr candidates)))"
      proof -
        have "stage df (exact_equal t) z = Some z" using s1 z1 [OF n1] by simp
        moreover have "stage df (caseless_equal t) z = Some z" using s2 z2 [OF False] by simp
        moreover have "\<not> any z" using n1 z1 [OF n1] by simp
        ultimately show ?thesis by (simp add: unfold z2 [OF False])
      qed
      show ?thesis
      proof (cases "Option.bind (lower t) re_compile")
        case None
        with n1 False show ?thesis
          by (simp add: 1 c1_def [symmetric] c2_def [symmetric] t_def [symmetric])
      next
        case (Some pat)
        with n1 False show ?thesis
          by (simp add: 1 s3 [OF Some] c1_def [symmetric] c2_def [symmetric] t_def [symmetric])
      qed
    qed
  qed
qed

lemma re_search_empty: "re_search [] x"
  by (induction x) simp_all

lemma lower_ascii: "ascii s \<Longrightarrow> lower s = Some (ascii_lower s)"
  by (simp add: lower_def)

lemma match_rows_stages:
  assumes "rect df" "list_all ascii (name_texts df)" "ascii (strip hn)"
  shows "match_rows df hn =
     (if any (spec_stage df (\<lambda>x. x = strip hn)) then Inr (spec_stage df (\<lambda>x. x = strip hn))
      else if any (spec_stage df (\<lambda>x. ascii_lower x = ascii_lower (strip hn)))
      then Inr (spec_stage df (\<lambda>x. ascii_lower x = ascii_lower (strip hn)))
      else if has_column df ''name'' \<or> has_column df ''hotel_name''
      then (case re_compile (ascii_lower (strip hn)) of
              None \<Rightarrow> Inl Not_modelled
            | Some pat \<Rightarrow> Inr (spec_stage df (\<lambda>x. re_search pat (ascii_lower x))))
      else Inr (spec_stage df (\<lambda>x. ascii_lower x = ascii_lower (strip hn))))"
proof -
  have a: "\<And>x. x \<in> set (name_texts df) \<Longrightarrow> ascii x"
    using assms(2) by (simp add: list_all_iff)
  have 1: "\<forall>x \<in> set (name_texts df).
      caseless_equal (strip hn) x = Some (ascii_lower x = ascii_lower (strip hn))"
    using a assms(3) by (simp add: caseless_equal_def lower_ascii)
  have 2: "\<forall>x \<in> set (name_texts df).
      search_lowered pat x = Some (re_search pat (ascii_lower x))" for pat
    using a by (simp add: search_lowered_def lower_ascii re_search_empty)
  have 3: "Option.bind (lower (strip hn)) re_compile = re_compile (ascii_lower (strip hn))"
    using assms(3) by (simp add: lower_ascii)
  show ?thesis
    unfolding match_rows_known [OF assms(1) 1 2] 3 ..
qed

lemma re_compile_plain:
  "\<forall>c \<in> set p. \<not> regex_special c \<Longrightarrow> re_compile p = Some (map Lit p)"
  by (induction p) (auto simp: regex_special_def)

lemma match_here_plain: "match_here (map Lit p) x = starts_with x p"
  by (induction x p rule: starts_with.induct) auto

lemma re_search_plain: "re_search (map Lit p) x = contains_text x p"
  by (induction x) (simp_all add: match_here_plain)

lemma match_rows_plain:
  assumes "rect df" "list_all ascii (name_texts df)" "ascii (strip hn)"
    "\<forall>c \<in> set (ascii_lower (strip hn)). \<not> regex_special c"
  shows "match_rows df hn = Inr (spec_match df hn)"
proof -
  have sub: "spec_stage df (\<lambda>x. re_search (map Lit (ascii_lower (strip hn))) (ascii_lower x))
      = spec_stage df (\<lambda>x. contains_text (ascii_lower x) (ascii_lower (strip hn)))"
    by (simp add: re_search_plain)
  show ?thesis
  proof (cases "has_column df ''name'' \<or> has_column df ''hotel_name''")
    case True
    then show ?thesis
      by (simp add: match_rows_stages [OF assms(1,2,3)] spec_match_def Let_def
          re_compile_plain [OF assms(4)] sub)
  next
    case False
    then have "\<not> any (spec_stage df test)" for test
      by (simp add: spec_stage_no_columns)
    from none_marked [OF this] have "spec_stage df test = replicate (len df) False" for test
      by (simp add: length_spec_stage)
    then have "spec_stage df test = spec_stage df test'" for test test'
      by simp
    then show ?thesis
      using False
      by (simp add: match_rows_stages [OF assms(1,2,3)] spec_match_def Let_def)
  qed
qed

subsection \<open>The empty pattern\<close>

lemma spec_stage_all:
  assumes "rect df" "has_column df ''name'' \<or> has_column df ''hotel_name''"
  shows "spec_stage df (\<lambda>x. True) = replicate (len df) True"
proof (rule nth_equalityI)
  show "length (spec_stage df (\<lambda>x. True)) = length (replicate (len df) True)"
    by (simp add: length_spec_stage)
next
  fix j assume "j < length (spec_stage df (\<lambda>x. True))"
  then have j: "j < len df" by (simp add: length_spec_stage)
  from assms(2) obtain c col where c: "c = ''name'' \<or> c = ''hotel_name''"
    and col: "map_of df c = Some col"
    by (auto simp: has_column_map_of)
  from rect_column_length [OF assms(1) col] j have "at df j c = Some (col ! j)"
    by (simp add: at_def col)
  with c j show "spec_stage df (\<lambda>x. True) ! j = replicate (len df) True ! j"
    by (auto simp: spec_stage_def)
qed

lemma caseless_equal_empty: "caseless_equal [] x = Some (x = [])"
  by (cases "lower x") (auto simp: caseless_equal_def lower_def ascii_lower_def ascii_def
      split: if_splits)

lemma match_rows_empty_name:
  assumes "rect df" "has_column df ''name'' \<or> has_column df ''hotel_name''" "strip hn = []"
  shows "match_rows df hn
     = Inr (if any (spec_stage df (\<lambda>x. x = [])) then spec_stage df (\<lambda>x. x = [])
            else replicate (len df) True)"
proof -
  have 1: "\<forall>x \<in> set (name_texts df). caseless_equal (strip hn) x = Some (x = [])"
    by (simp add: assms(3) caseless_equal_empty)
  have 2: "\<forall>x \<in> set (name_texts df). search_lowered pat x = Some True"
    if "Option.bind (lower (strip hn)) re_compile = Some pat" for pat
  proof -
    from that have "pat = []"
      by (simp add: assms(3) lower_def ascii_def ascii_lower_def)
    then show ?thesis by (simp add: search_lowered_def)
  qed
  have 3: "Option.bind (lower []) re_compile = Some []"
    by (simp add: lower_def ascii_def ascii_lower_def)
  have "match_rows df hn =
     (if any (spec_stage df (\<lambda>x. x = strip hn)) then Inr (spec_stage df (\<lambda>x. x = strip hn))
      else if any (spec_stage df (\<lambda>x. x = [])) then Inr (spec_stage df (\<lambda>x. x = []))
      else if has_column df ''name'' \<or> has_column df ''hotel_name''
      then (case Option.bind (lower (strip hn)) re_compile of
              None \<Rightarrow> Inl Not_modelled
            | Some pat \<Rightarrow> Inr (spec_stage df (\<lambda>x. True)))
      else Inr (spec_stage df (\<lambda>x. x = [])))"
    using assms(1) 1 2 by (rule match_rows_known [where srch = "\<lambda>pat x. True"])
  then show ?thesis
    using assms(2)
    by (simp add: 3 assms(3) spec_stage_all [OF assms(1,2)])
qed

lemma blank_wf: "blank_fs ''data/hotels.csv'' = Some (Parsed blank_table)"
  "wf_table blank_table"
  by (simp add: blank_fs_def, code_simp)

section \<open>The claims\<close>

subsection \<open>New availability\<close>



subsection \<open>Decrement, then increment\<close>



subsection \<open>Status and availability\<close>

text \<open>
  Claim C3, as the specification states it, fails: a status column that the file brings
  is kept as it is in the rows that a call does not change, and a negative count stays
  negative. In the sample below the call succeeds, and afterwards the second row has five
  rooms under the label for none, and the third row has a negative count.
\<close>

theorem C3_counterexample:
  "fst (decrement_room_availability [''k3x9_q0z''] stale_fs ''data/hotels.csv'' ''Sunrise Inn'' 3)
     = Inr 7
   \<and> snd (decrement_room_availability [''k3x9_q0z''] stale_fs ''data/hotels.csv'' ''Sunrise Inn'' 3)
       ''data/hotels.csv''
     = Some (Parsed
         [(''name'', [Some ''Sunrise Inn'', Some ''Moon Lodge'', Some ''Star Hostel'']),
          (''rooms_available'', [Some ''7'', Some ''5'', Some ''-2'']),
          (''status'', [Some AVAILABLE, Some UNAVAILABLE, Some UNAVAILABLE])])
   \<and> safe_read_csv
         (snd (decrement_room_availability [''k3x9_q0z''] stale_fs ''data/hotels.csv''
                 ''Sunrise Inn'' 3)) ''data/hotels.csv''
     = Inr [(''name'', [Str ''Sunrise Inn'', Str ''Moon Lodge'', Str ''Star Hostel'']),
            (''rooms_available'', [Integer 7, Integer 5, Integer (- 2)]),
            (''status'', [Str AVAILABLE, Str UNAVAILABLE, Str UNAVAILABLE])]
   \<and> AVAILABLE \<noteq> UNAVAILABLE"
proof -
  have "fst (decrement_room_availability [''k3x9_q0z''] stale_fs ''data/hotels.csv''
               ''Sunrise Inn'' 3) = Inr 7"
    by code_simp
  moreover have "snd (decrement_room_availability [''k3x9_q0z''] stale_fs ''data/hotels.csv''
       ''Sunrise Inn'' 3) ''data/hotels.csv''
     = Some (Parsed
         [(''name'', [Some ''Sunrise Inn'', Some ''Moon Lodge'', Some ''Star Hostel'']),
          (''rooms_available'', [Some ''7'', Some ''5'', Some ''-2'']),
          (''status'', [Some AVAILABLE, Some UNAVAILABLE, Some UNAVAILABLE])])"
    by code_simp
  moreover have "safe_read_csv
         (snd (decrement_room_availability [''k3x9_q0z''] stale_fs ''data/hotels.csv''
                 ''Sunrise Inn'' 3)) ''data/hotels.csv''
     = Inr [(''name'', [Str ''Sunrise Inn'', Str ''Moon Lodge'', Str ''Star Hostel'']),
            (''rooms_available'', [Integer 7, Integer 5, Integer (- 2)]),
            (''status'', [Str AVAILABLE, Str UNAVAILABLE, Str UNAVAILABLE])]"
    by code_simp
  ultimately show ?thesis using labels_differ by (intro conjI)
qed

text \<open>
  Claim C3, amended. After a successful decrement or increment the file loads again, and
  in the row that the call changed the status is the label for rooms left exactly when
  the new availability is positive, and the label for none otherwise. The new
  availability is not negative after a decrement, nor after an increment of a count that
  was not negative. Every other row keeps the availability and the status it was loaded
  with; so, when the file came without a status column, every row carries the label that
  fits its availability.
\<close>

theorem C3_status_of_changed_row:
  assumes "fs path = Some (Parsed t)" and "wf_table t"
    and "safe_read_csv fs path = Inr df" and "match_rows df hn = Inr m"
    and "decrement_room_availability names fs path hn a = (Inr v, fs')
         \<or> increment_room_availability names fs path hn a = (Inr v, fs')"
  shows "\<exists>df'. fs' path = Some (to_csv df') \<and> safe_read_csv fs' path = Inr df'
       \<and> at df' (first_true m) ''rooms_available'' = Some (Integer v)
       \<and> (at df' (first_true m) ''status'' = Some (Str AVAILABLE)) = (0 < v)
       \<and> (at df' (first_true m) ''status'' = Some (Str UNAVAILABLE)) = (\<not> 0 < v)
       \<and> (decrement_room_availability names fs path hn a = (Inr v, fs') \<longrightarrow> 0 \<le> v)
       \<and> (\<forall>c. at df (first_true m) ''rooms_available'' = Some (Integer c) \<and> 0 \<le> c \<longrightarrow> 0 \<le> v)
       \<and> (\<forall>j c. j \<noteq> first_true m \<longrightarrow> at df' j c = at df j c)
       \<and> (''status'' \<notin> set (map fst t) \<longrightarrow>
            (\<forall>j. j < len df' \<longrightarrow>
               (\<exists>n. at df' j ''rooms_available'' = Some (Integer n)
                  \<and> at df' j ''status'' = Some (Str (status_label n)))))"
proof -
  define i where "i = first_true m"
  define df' where "df' = mutated df i v"
  from assms(5) obtain new where u: "update_first new names fs path hn = (Inr v, fs')"
    and pos: "0 < a"
    by (rule call_is_update)
  from successful_update [OF assms(1-4) u] obtain c where
    ty: "typed df" and il: "i < len df"
    and c: "at df i ''rooms_available'' = Some (Integer c)"
    and fs': "fs' = fs(path \<mapsto> to_csv df')"
    and l: "safe_read_csv fs' path = Inr df'"
    unfolding i_def df'_def by blast
  have w: "fs' path = Some (to_csv df')" by (simp add: fs')
  have rooms: "at df' i ''rooms_available'' = Some (Integer v)"
    and status: "at df' i ''status'' = Some (Str (status_label v))"
    and others: "\<And>j k. j \<noteq> i \<Longrightarrow> at df' j k = at df j k"
    using at_mutated_rooms [OF ty il] by (simp_all add: df'_def)
  have dec: "0 \<le> v" if "decrement_room_availability names fs path hn a = (Inr v, fs')"
  proof -
    from that pos have "update_first (\<lambda>current. max 0 (current - a)) names fs path hn
        = (Inr v, fs')"
      by (simp add: decrement_room_availability_def)
    from successful_update [OF assms(1-4) this] obtain c' where "v = max 0 (c' - a)" by blast
    then show ?thesis by simp
  qed
  have sign: "0 \<le> v" if "at df i ''rooms_available'' = Some (Integer c')" "0 \<le> c'" for c'
  proof -
    from that c have e: "c' = c" by simp
    from assms(5) show ?thesis
    proof
      assume "decrement_room_availability names fs path hn a = (Inr v, fs')"
      then show ?thesis by (rule dec)
    next
      assume "increment_room_availability names fs path hn a = (Inr v, fs')"
      with pos have "update_first (\<lambda>current. current + a) names fs path hn = (Inr v, fs')"
        by (simp add: increment_room_availability_def)
      from successful_update [OF assms(1-4) this] c obtain c'' where
        "at df i ''rooms_available'' = Some (Integer c'')" "v = c'' + a"
        unfolding i_def by blast
      with c e that(2) pos show ?thesis by simp
    qed
  qed
  have all_rows: "\<exists>n. at df' j ''rooms_available'' = Some (Integer n)
        \<and> at df' j ''status'' = Some (Str (status_label n))"
    if "''status'' \<notin> set (map fst t)" "j < len df'" for j
  proof (cases "j = i")
    case True
    with rooms status show ?thesis by simp
  next
    case False
    from that(2) have "j < len df" by (simp add: df'_def len_mutated)
    from loaded_status_derived [OF assms(1-3) that(1) this] others [OF False]
    show ?thesis by simp
  qed
  show ?thesis
    apply (rule exI [of _ df'])
    using w l rooms status dec sign others all_rows
    by (simp add: i_def [symmetric] status_label_iff)
qed

theorem C3_witness:
  "fst (decrement_room_availability [''k3x9_q0z''] grand_fs ''data/hotels.csv''
            ''Grand Hotel'' 1) = Inr 7
   \<and> ''status'' \<notin> set (map fst grand_table)
   \<and> (\<exists>df'. safe_read_csv
                (snd (decrement_room_availability [''k3x9_q0z''] grand_fs ''data/hotels.csv''
                        ''Grand Hotel'' 1)) ''data/hotels.csv'' = Inr df'
          \<and> at df' 1 ''rooms_available'' = Some (Integer 7)
          \<and> at df' 1 ''status'' = Some (Str AVAILABLE)
          \<and> at df' 2 ''rooms_available'' = Some (Integer 1200))"
proof -
  have o: "at [(''name'', [Str ''Moon Lodge'', Str ''Grand Hotel'', Str ''Grand Hotel'']),
            (''city'', [Str ''Hue'', NaN, Str ''Da Nang'']),
            (''rooms_available'', [Integer 4, Integer 8, Integer 1200]),
            (''status'', [Str AVAILABLE, Str AVAILABLE, Str AVAILABLE])] 2 ''rooms_available''
         = Some (Integer 1200)"
    "first_true [False, True, True] = 1"
    by code_simp+
  have ns: "''status'' \<notin> set (map fst grand_table)"
    by (simp add: grand_table_def)
  from C3_status_of_changed_row
    [OF grand_wf grand_loaded grand_matched disjI1 [OF grand_decrement]]
  obtain df' where all:
    "snd (decrement_room_availability [''k3x9_q0z''] grand_fs ''data/hotels.csv''
            ''Grand Hotel'' 1) ''data/hotels.csv'' = Some (to_csv df')
     \<and> safe_read_csv
          (snd (decrement_room_availability [''k3x9_q0z''] grand_fs ''data/hotels.csv''
                  ''Grand Hotel'' 1)) ''data/hotels.csv'' = Inr df'
     \<and> at df' (first_true [False, True, True]) ''rooms_available'' = Some (Integer 7)
     \<and> (at df' (first_true [False, True, True]) ''status'' = Some (Str AVAILABLE)) = (0 < (7::int))
     \<and> (at df' (first_true [False, True, True]) ''status'' = Some (Str UNAVAILABLE))
          = (\<not> 0 < (7::int))
     \<and> (decrement_room_availability [''k3x9_q0z''] grand_fs ''data/hotels.csv''
            ''Grand Hotel'' 1
           = (Inr 7, snd (decrement_room_availability [''k3x9_q0z''] grand_fs
                             ''data/hotels.csv'' ''Grand Hotel'' 1)) \<longrightarrow> 0 \<le> (7::int))
     \<and> (\<forall>c. at [(''name'', [Str ''Moon Lodge'', Str ''Grand Hotel'', Str ''Grand Hotel'']),
                  (''city'', [Str ''Hue'', NaN, Str ''Da Nang'']),
                  (''rooms_available'', [Integer 4, Integer 8, Integer 1200]),
                  (''status'', [Str AVAILABLE, Str AVAILABLE, Str AVAILABLE])]
               (first_true [False, True, True]) ''rooms_available'' = Some (Integer c)
              \<and> 0 \<le> c \<longrightarrow> 0 \<le> (7::int))
     \<and> (\<forall>j c. j \<noteq> first_true [False, True, True] \<longrightarrow> at df' j c
            = at [(''name'', [Str ''Moon Lodge'', Str ''Grand Hotel'', Str ''Grand Hotel'']),
                  (''city'', [Str ''Hue'', NaN, Str ''Da Nang'']),
                  (''rooms_available'', [Integer 4, Integer 8, Integer 1200]),
                  (''status'', [Str AVAILABLE, Str AVAILABLE, Str AVAILABLE])] j c)
     \<and> (''status'' \<notin> set (map fst grand_table) \<longrightarrow>
            (\<forall>j. j < len df' \<longrightarrow>
               (\<exists>n. at df' j ''rooms_available'' = Some (Integer n)
                  \<and> at df' j ''status'' = Some (Str (status_label n)))))" ..
  note l = all [THEN conjunct2, THEN conjunct1]
    and rooms = all [THEN conjunct2, THEN conjunct2, THEN conjunct1]
    and status = all [THEN conjunct2, THEN conjunct2, THEN conjunct2, THEN conjunct1]
    and others = all [THEN conjunct2, THEN conjunct2, THEN conjunct2, THEN conjunct2,
        THEN conjunct2, THEN conjunct2, THEN conjunct2, THEN conjunct1]
  have 1: "at df' 1 ''rooms_available'' = Some (Integer 7)"
    using rooms by (simp add: o(2))
  have 2: "at df' 1 ''status'' = Some (Str AVAILABLE)"
    using status by (simp add: o(2))
  have 3: "at df' 2 ''rooms_available'' = Some (Integer 1200)"
    using others [rule_format, of 2 "''rooms_available''"] o by simp
  have 4: "fst (decrement_room_availability [''k3x9_q0z''] grand_fs ''data/hotels.csv''
            ''Grand Hotel'' 1) = Inr 7"
    using grand_decrement by (metis fst_conv)
  show ?thesis
    apply (rule conjI [OF 4])
    apply (rule conjI [OF ns])
    apply (rule exI [of _ df'])
    apply (intro conjI)
    apply (rule l 1 2 3)+
    done
qed

subsection \<open>The third stage of the matcher\<close>

text \<open>
  Claim C4. The order of the stages is as the claim has it (lemma \<open>match_rows_stages\<close>,
  for names in ASCII), and for such a name without characters of the regular expression
  syntax the matcher is the matcher of the specification (lemma \<open>match_rows_plain\<close>).
  The third stage, however, is \<open>Series.str.contains\<close> with its default \<open>regex=True\<close>:
  the name is read as a pattern, not as a text. In the sample file the name
  \<open>Sunrise.Inn\<close> is contained in no hotel name, also without regard to case, and still
  the matcher marks the row of \<open>Sunrise Inn\<close> and the decrement changes it. The second
  part of the claim holds: with \<open>Grand Hotel\<close> and \<open>grand hotel\<close> in the table, the name
  \<open>Grand Hotel\<close> marks the first of them only.
\<close>

theorem C4_pattern_not_text:
  "lower (strip ''Sunrise Inn'') = Some ''sunrise inn''
   \<and> lower (strip ''Sunrise.Inn'') = Some ''sunrise.inn''
   \<and> \<not> contains_text ''sunrise inn'' ''sunrise.inn''
   \<and> spec_match [(''name'', [Str ''Sunrise Inn'']), (''rooms_available'', [Integer 10]),
                  (''status'', [Str AVAILABLE])] ''Sunrise.Inn'' = [False]
   \<and> match_rows [(''name'', [Str ''Sunrise Inn'']), (''rooms_available'', [Integer 10]),
                  (''status'', [Str AVAILABLE])] ''Sunrise.Inn'' = Inr [True]
   \<and> fst (decrement_room_availability [''k3x9_q0z''] sunrise_fs ''data/hotels.csv''
            ''Sunrise.Inn'' 1) = Inr 9
   \<and> match_rows [(''name'', [Str ''Grand Hotel'', Str ''grand hotel'']),
                  (''rooms_available'', [Integer 8, Integer 6]),
                  (''status'', [Str AVAILABLE, Str AVAILABLE])] ''Grand Hotel''
       = Inr [True, False]"
  by code_simp

subsection \<open>Which row is changed\<close>

text \<open>
  Claim C5. After a successful decrement or increment the row that was changed is the
  first one, in file order, that the matcher marked: no earlier row is marked. The file
  loads again with the returned value in that row, and with every cell of every other row,
  marked or not, as it was loaded before the call.
\<close>

theorem C5_first_match_only:
  assumes "fs path = Some (Parsed t)" and "wf_table t"
    and "safe_read_csv fs path = Inr df" and "match_rows df hn = Inr m"
    and "decrement_room_availability names fs path hn a = (Inr v, fs')
         \<or> increment_room_availability names fs path hn a = (Inr v, fs')"
  shows "first_true m < length m \<and> m ! first_true m \<and> (\<forall>j. j < first_true m \<longrightarrow> \<not> m ! j)
       \<and> (\<exists>df'. safe_read_csv fs' path = Inr df'
              \<and> at df' (first_true m) ''rooms_available'' = Some (Integer v)
              \<and> (\<forall>j c. j \<noteq> first_true m \<longrightarrow> at df' j c = at df j c))"
proof -
  from assms(5) obtain new where u: "update_first new names fs path hn = (Inr v, fs')"
    by (rule call_is_update)
  from successful_update [OF assms(1-4) u] obtain c where
    t: "typed df" and a: "any m" and i: "first_true m < len df"
    and l: "safe_read_csv fs' path = Inr (mutated df (first_true m) v)"
    by blast
  from first_true_props [OF a] have
    "first_true m < length m \<and> m ! first_true m \<and> (\<forall>j. j < first_true m \<longrightarrow> \<not> m ! j)"
    by blast
  moreover have "at (mutated df (first_true m) v) (first_true m) ''rooms_available''
      = Some (Integer v)"
    using at_mutated_rooms(1) [OF t i] .
  moreover have "\<forall>j c. j \<noteq> first_true m
      \<longrightarrow> at (mutated df (first_true m) v) j c = at df j c"
    using at_mutated_rooms(3) [OF t i] by blast
  ultimately show ?thesis using l by blast
qed

theorem C5_witness:
  "first_true [False, True, True] = 1
   \<and> fst (decrement_room_availability [''k3x9_q0z''] grand_fs ''data/hotels.csv''
            ''Grand Hotel'' 1) = Inr 7
   \<and> (\<exists>df'. safe_read_csv
                (snd (decrement_room_availability [''k3x9_q0z''] grand_fs ''data/hotels.csv''
                        ''Grand Hotel'' 1)) ''data/hotels.csv'' = Inr df'
          \<and> at df' 1 ''rooms_available'' = Some (Integer 7)
          \<and> at df' 2 ''rooms_available'' = Some (Integer 1200)
          \<and> at df' 2 ''status'' = Some (Str AVAILABLE))"
proof -
  have i: "first_true [False, True, True] = 1" by code_simp
  have o: "at [(''name'', [Str ''Moon Lodge'', Str ''Grand Hotel'', Str ''Grand Hotel'']),
            (''city'', [Str ''Hue'', NaN, Str ''Da Nang'']),
            (''rooms_available'', [Integer 4, Integer 8, Integer 1200]),
            (''status'', [Str AVAILABLE, Str AVAILABLE, Str AVAILABLE])] 2 ''rooms_available''
         = Some (Integer 1200)"
    "at [(''name'', [Str ''Moon Lodge'', Str ''Grand Hotel'', Str ''Grand Hotel'']),
            (''city'', [Str ''Hue'', NaN, Str ''Da Nang'']),
            (''rooms_available'', [Integer 4, Integer 8, Integer 1200]),
            (''status'', [Str AVAILABLE, Str AVAILABLE, Str AVAILABLE])] 2 ''status''
         = Some (Str AVAILABLE)"
    by code_simp+
  from C5_first_match_only [OF grand_wf grand_loaded grand_matched disjI1 [OF grand_decrement]]
  obtain df' where
    "safe_read_csv (snd (decrement_room_availability [''k3x9_q0z''] grand_fs ''data/hotels.csv''
                        ''Grand Hotel'' 1)) ''data/hotels.csv'' = Inr df'"
    "at df' 1 ''rooms_available'' = Some (Integer 7)"
    "at df' 2 ''rooms_available'' = Some (Integer 1200)"
    "at df' 2 ''status'' = Some (Str AVAILABLE)"
    using i o by auto
  with i grand_decrement show ?thesis by (metis fst_conv)
qed

subsection \<open>What a call leaves alone\<close>

text \<open>
  Claim C6, as stated, fails in the column \<open>rooms_available\<close>: the loader brings the
  whole column into its normal form, and the writer writes the whole table. In the sample
  the call changes the row of \<open>Sunrise Inn\<close>. The other two rows are not matched, and
  still the file has \<open>1200\<close> afterwards where it had \<open>1,200.0\<close>, and \<open>0\<close> where it had
  \<open>sold out\<close>.
\<close>

theorem C6_counterexample:
  "map_of comma_table ''rooms_available'' = Some [Some ''10'', Some ''1,200.0'', Some ''sold out'']
   \<and> match_rows [(''name'', [Str ''Sunrise Inn'', Str ''Moon Lodge'', Str ''Star Hostel'']),
                  (''rooms_available'', [Integer 10, Integer 1200, Integer 0]),
                  (''status'', [Str AVAILABLE, Str AVAILABLE, Str UNAVAILABLE])] ''Sunrise Inn''
       = Inr [True, False, False]
   \<and> fst (decrement_room_availability [''k3x9_q0z''] comma_fs ''data/hotels.csv''
            ''Sunrise Inn'' 3) = Inr 7
   \<and> snd (decrement_room_availability [''k3x9_q0z''] comma_fs ''data/hotels.csv''
            ''Sunrise Inn'' 3) ''data/hotels.csv''
       = Some (Parsed [(''name'', [Some ''Sunrise Inn'', Some ''Moon Lodge'', Some ''Star Hostel'']),
                       (''rooms_available'', [Some ''7'', Some ''1200'', Some ''0'']),
                       (''status'', [Some AVAILABLE, Some AVAILABLE, Some UNAVAILABLE])])"
  by code_simp

text \<open>
  Claim C6, amended. After a successful decrement or increment the file holds a table
  again. Its header is the old header, followed by \<open>rooms_available\<close> and \<open>status\<close>
  where the old file lacked them. Every column other than these two holds, row by row,
  the very texts of the old file. The column \<open>rooms_available\<close> is written anew for
  every row, each cell as the decimal text of the integer that the loader read from it.
  Loaded again, the table has the columns and the number of rows that the old file had
  when loaded, and the same value in every cell but the two target cells of the changed
  row.
\<close>

theorem C6_frame:
  assumes "fs path = Some (Parsed t)" and "wf_table t"
    and "safe_read_csv fs path = Inr df" and "match_rows df hn = Inr m"
    and "decrement_room_availability names fs path hn a = (Inr v, fs')
         \<or> increment_room_availability names fs path hn a = (Inr v, fs')"
  shows "\<exists>t' df'. fs' path = Some (Parsed t') \<and> safe_read_csv fs' path = Inr df'
       \<and> map fst t' = map fst t
            @ filter (\<lambda>c. c \<notin> set (map fst t)) [''rooms_available'', ''status'']
       \<and> (\<forall>c. c \<noteq> ''rooms_available'' \<and> c \<noteq> ''status'' \<longrightarrow> map_of t' c = map_of t c)
       \<and> map fst df' = map fst df \<and> len df' = len df
       \<and> (\<forall>j c. j \<noteq> first_true m \<or> (c \<noteq> ''rooms_available'' \<and> c \<noteq> ''status'')
              \<longrightarrow> at df' j c = at df j c)
       \<and> (\<forall>j n. at df' j ''rooms_available'' = Some (Integer n) \<longrightarrow>
             (\<exists>col. map_of t' ''rooms_available'' = Some col \<and> j < length col
                \<and> col ! j = Some (str_int n)))"
proof -
  define i where "i = first_true m"
  define df' where "df' = mutated df i v"
  define text_of where "text_of = (\<lambda>v. case v of NaN \<Rightarrow> None | Str s \<Rightarrow> Some s
                                          | Integer n \<Rightarrow> Some (str_int n))"
  define cell_of where "cell_of = (\<lambda>v. case v of None \<Rightarrow> NaN | Some s \<Rightarrow> Str s)"
  define t' where "t' = map (\<lambda>(c, vs). (c, map text_of vs)) df'"
  from assms(5) obtain new where u: "update_first new names fs path hn = (Inr v, fs')"
    by (rule call_is_update)
  from successful_update [OF assms(1-4) u] obtain c where
    ty: "typed df" and il: "i < len df"
    and fs': "fs' = fs(path \<mapsto> to_csv df')"
    and l: "safe_read_csv fs' path = Inr df'"
    unfolding i_def df'_def by blast
  have w: "fs' path = Some (Parsed t')"
    by (simp add: fs' to_csv_def t'_def text_of_def)
  from assms(1,3) obtain df0 where r: "read_csv (Parsed t) = Some df0"
    and n: "normalize_frame df0 = Inr df"
    by (auto simp: safe_read_csv_def split: option.splits)
  have h0: "has_column df0 c = (c \<in> set (map fst t))" for c
    by (simp add: has_column_def map_of_read_csv(2) [OF r])
  have f: "map fst t' = map fst df"
    by (simp add: t'_def df'_def fst_mutated case_prod_beta comp_def)
  have header: "map fst t' = map fst t
            @ filter (\<lambda>c. c \<notin> set (map fst t)) [''rooms_available'', ''status'']"
    unfolding f normalize_frame_columns(1) [OF n] map_of_read_csv(2) [OF r] h0 ..
  have written: "map_of t' c = map_option (map text_of) (map_of df' c)" for c
    unfolding t'_def by (induction df') auto
  have raw: "map_of t' c = map_of t c" if "c \<noteq> ''rooms_available''" "c \<noteq> ''status''" for c
  proof -
    note written [of c]
    also have "map_of df' c = map_of df0 c"
      using that by (simp add: df'_def map_of_mutated_other normalize_frame_columns(2) [OF n])
    also have "map_of df0 c = map_option (map cell_of) (map_of t c)"
      unfolding cell_of_def by (rule map_of_read_csv(1) [OF r])
    also have "map_option (map text_of) (map_option (map cell_of) (map_of t c)) = map_of t c"
    proof -
      have "text_of (cell_of x) = x" for x
        by (cases x) (simp_all add: text_of_def cell_of_def)
      then have "map text_of (map cell_of xs) = xs" for xs
        by (induction xs) simp_all
      then show ?thesis by (cases "map_of t c") simp_all
    qed
    finally show ?thesis .
  qed
  have cells: "\<forall>j c. j \<noteq> first_true m \<or> (c \<noteq> ''rooms_available'' \<and> c \<noteq> ''status'')
              \<longrightarrow> at df' j c = at df j c"
    using at_mutated_rooms(3) [OF ty il] by (auto simp: df'_def i_def)
  have normal: "\<exists>col. map_of t' ''rooms_available'' = Some col \<and> j < length col
      \<and> col ! j = Some (str_int n)"
    if "at df' j ''rooms_available'' = Some (Integer n)" for j n
  proof -
    from that obtain col' where c': "map_of df' ''rooms_available'' = Some col'"
      and j: "j < length col'" and e: "col' ! j = Integer n"
      by (auto simp: at_def split: option.splits if_splits)
    from c' have "map_of t' ''rooms_available'' = Some (map text_of col')"
      by (simp add: written)
    moreover from j e have "map text_of col' ! j = Some (str_int n)"
      by (simp add: text_of_def)
    ultimately show ?thesis using j by simp
  qed
  have "map fst df' = map fst df" "len df' = len df"
    by (simp_all add: df'_def fst_mutated len_mutated)
  with w l header raw cells normal show ?thesis by blast
qed

theorem C6_witness:
  "fst (decrement_room_availability [''k3x9_q0z''] grand_fs ''data/hotels.csv''
            ''Grand Hotel'' 1) = Inr 7
   \<and> (\<exists>t' df'. snd (decrement_room_availability [''k3x9_q0z''] grand_fs ''data/hotels.csv''
                        ''Grand Hotel'' 1) ''data/hotels.csv'' = Some (Parsed t')
          \<and> safe_read_csv
                (snd (decrement_room_availability [''k3x9_q0z''] grand_fs ''data/hotels.csv''
                        ''Grand Hotel'' 1)) ''data/hotels.csv'' = Inr df'
          \<and> map fst t' = [''name'', ''city'', ''rooms_available'', ''status'']
          \<and> map_of t' ''name'' = Some [Some ''Moon Lodge'', Some ''Grand Hotel'', Some ''Grand Hotel'']
          \<and> map_of t' ''city'' = Some [Some ''Hue'', None, Some ''Da Nang'']
          \<and> at df' 1 ''city'' = Some NaN
          \<and> at df' 2 ''rooms_available'' = Some (Integer 1200))"
proof -
  have o: "at [(''name'', [Str ''Moon Lodge'', Str ''Grand Hotel'', Str ''Grand Hotel'']),
            (''city'', [Str ''Hue'', NaN, Str ''Da Nang'']),
            (''rooms_available'', [Integer 4, Integer 8, Integer 1200]),
            (''status'', [Str AVAILABLE, Str AVAILABLE, Str AVAILABLE])] 2 ''rooms_available''
         = Some (Integer 1200)"
    "at [(''name'', [Str ''Moon Lodge'', Str ''Grand Hotel'', Str ''Grand Hotel'']),
            (''city'', [Str ''Hue'', NaN, Str ''Da Nang'']),
            (''rooms_available'', [Integer 4, Integer 8, Integer 1200]),
            (''status'', [Str AVAILABLE, Str AVAILABLE, Str AVAILABLE])] 1 ''city''
         = Some NaN"
    "first_true [False, True, True] = 1"
    by code_simp+
  have g: "map fst grand_table
            @ filter (\<lambda>c. c \<notin> set (map fst grand_table)) [''rooms_available'', ''status'']
         = [''name'', ''city'', ''rooms_available'', ''status'']"
    "map_of grand_table ''name'' = Some [Some ''Moon Lodge'', Some ''Grand Hotel'', Some ''Grand Hotel'']"
    "map_of grand_table ''city'' = Some [Some ''Hue'', None, Some ''Da Nang'']"
    by (simp_all add: grand_table_def)
  from C6_frame [OF grand_wf grand_loaded grand_matched disjI1 [OF grand_decrement]]
  obtain t' where "\<exists>df'.
      snd (decrement_room_availability [''k3x9_q0z''] grand_fs ''data/hotels.csv''
             ''Grand Hotel'' 1) ''data/hotels.csv'' = Some (Parsed t')
    \<and> safe_read_csv
          (snd (decrement_room_availability [''k3x9_q0z''] grand_fs ''data/hotels.csv''
                  ''Grand Hotel'' 1)) ''data/hotels.csv'' = Inr df'
    \<and> map fst t' = map fst grand_table
            @ filter (\<lambda>c. c \<notin> set (map fst grand_table)) [''rooms_available'', ''status'']
    \<and> (\<forall>c. c \<noteq> ''rooms_available'' \<and> c \<noteq> ''status''
                \<longrightarrow> map_of t' c = map_of grand_table c)
    \<and> map fst df'
         = map fst [(''name'', [Str ''Moon Lodge'', Str ''Grand Hotel'', Str ''Grand Hotel'']),
                    (''city'', [Str ''Hue'', NaN, Str ''Da Nang'']),
                    (''rooms_available'', [Integer 4, Integer 8, Integer 1200]),
                    (''status'', [Str AVAILABLE, Str AVAILABLE, Str AVAILABLE])]
    \<and> len df'
         = len [(''name'', [Str ''Moon Lodge'', Str ''Grand Hotel'', Str ''Grand Hotel'']),
                (''city'', [Str ''Hue'', NaN, Str ''Da Nang'']),
                (''rooms_available'', [Integer 4, Integer 8, Integer 1200]),
                (''status'', [Str AVAILABLE, Str AVAILABLE, Str AVAILABLE])]
    \<and> (\<forall>j c. j \<noteq> first_true [False, True, True]
                  \<or> (c \<noteq> ''rooms_available'' \<and> c \<noteq> ''status'')
              \<longrightarrow> at df' j c
                  = at [(''name'', [Str ''Moon Lodge'', Str ''Grand Hotel'', Str ''Grand Hotel'']),
                        (''city'', [Str ''Hue'', NaN, Str ''Da Nang'']),
                        (''rooms_available'', [Integer 4, Integer 8, Integer 1200]),
                        (''status'', [Str AVAILABLE, Str AVAILABLE, Str AVAILABLE])] j c)
    \<and> (\<forall>j n. at df' j ''rooms_available'' = Some (Integer n) \<longrightarrow>
          (\<exists>col. map_of t' ''rooms_available'' = Some col \<and> j < length col
             \<and> col ! j = Some (str_int n)))" ..
  then obtain df' where all:
     "snd (decrement_room_availability [''k3x9_q0z''] grand_fs ''data/hotels.csv''
             ''Grand Hotel'' 1) ''data/hotels.csv'' = Some (Parsed t')
    \<and> safe_read_csv
          (snd (decrement_room_availability [''k3x9_q0z''] grand_fs ''data/hotels.csv''
                  ''Grand Hotel'' 1)) ''data/hotels.csv'' = Inr df'
    \<and> map fst t' = map fst grand_table
            @ filter (\<lambda>c. c \<notin> set (map fst grand_table)) [''rooms_available'', ''status'']
    \<and> (\<forall>c. c \<noteq> ''rooms_available'' \<and> c \<noteq> ''status''
                \<longrightarrow> map_of t' c = map_of grand_table c)
    \<and> map fst df'
         = map fst [(''name'', [Str ''Moon Lodge'', Str ''Grand Hotel'', Str ''Grand Hotel'']),
                    (''city'', [Str ''Hue'', NaN, Str ''Da Nang'']),
                    (''rooms_available'', [Integer 4, Integer 8, Integer 1200]),
                    (''status'', [Str AVAILABLE, Str AVAILABLE, Str AVAILABLE])]
    \<and> len df'
         = len [(''name'', [Str ''Moon Lodge'', Str ''Grand Hotel'', Str ''Grand Hotel'']),
                (''city'', [Str ''Hue'', NaN, Str ''Da Nang'']),
                (''rooms_available'', [Integer 4, Integer 8, Integer 1200]),
                (''status'', [Str AVAILABLE, Str AVAILABLE, Str AVAILABLE])]
    \<and> (\<forall>j c. j \<noteq> first_true [False, True, True]
                  \<or> (c \<noteq> ''rooms_available'' \<and> c \<noteq> ''status'')
              \<longrightarrow> at df' j c
                  = at [(''name'', [Str ''Moon Lodge'', Str ''Grand Hotel'', Str ''Grand Hotel'']),
                        (''city'', [Str ''Hue'', NaN, Str ''Da Nang'']),
                        (''rooms_available'', [Integer 4, Integer 8, Integer 1200]),
                        (''status'', [Str AVAILABLE, Str AVAILABLE, Str AVAILABLE])] j c)
    \<and> (\<forall>j n. at df' j ''rooms_available'' = Some (Integer n) \<longrightarrow>
          (\<exists>col. map_of t' ''rooms_available'' = Some col \<and> j < length col
             \<and> col ! j = Some (str_int n)))" ..
  note w = all [THEN conjunct1]
    and l = all [THEN conjunct2, THEN conjunct1]
    and h = all [THEN conjunct2, THEN conjunct2, THEN conjunct1]
    and raw = all [THEN conjunct2, THEN conjunct2, THEN conjunct2, THEN conjunct1]
    and cells = all [THEN conjunct2, THEN conjunct2, THEN conjunct2, THEN conjunct2,
        THEN conjunct2, THEN conjunct2, THEN conjunct1]
    and normal = all [THEN conjunct2, THEN conjunct2, THEN conjunct2, THEN conjunct2,
        THEN conjunct2, THEN conjunct2, THEN conjunct2]
  have 1: "map fst t' = [''name'', ''city'', ''rooms_available'', ''status'']"
    by (simp only: h g(1))
  have 2: "map_of t' ''name''
      = Some [Some ''Moon Lodge'', Some ''Grand Hotel'', Some ''Grand Hotel'']"
    using raw g(2) by simp
  have 3: "map_of t' ''city'' = Some [Some ''Hue'', None, Some ''Da Nang'']"
    using raw g(3) by simp
  have 4: "at df' 1 ''city'' = Some NaN"
    using cells [rule_format, of 1 "''city''"] o(2) by simp
  have 5: "at df' 2 ''rooms_available'' = Some (Integer 1200)"
    using cells [rule_format, of 2 "''rooms_available''"] o(1,3) by simp
  have 6: "fst (decrement_room_availability [''k3x9_q0z''] grand_fs ''data/hotels.csv''
            ''Grand Hotel'' 1) = Inr 7"
    using grand_decrement by (metis fst_conv)
  show ?thesis
    apply (rule conjI [OF 6])
    apply (rule exI [of _ t'])
    apply (rule exI [of _ df'])
    apply (intro conjI)
    apply (rule w l 1 2 3 4 5)+
    done
qed

subsection \<open>The numbers the loader reads\<close>




subsection \<open>Calls that are rejected\<close>

text \<open>
  Claim C8. A call of either operation with an amount that is zero or negative fails with
  the \<open>ValueError\<close> that names the amount (the \<open>InvalidArgument\<close> failure) and returns
  the file system as it was. A call with a positive amount on a path where no file exists
  fails with \<open>FileNotFoundError\<close> (the \<open>NotFound\<close> failure) and returns the file system
  as it was, so no file has been created. The amount is tested first, so the second part
  is about positive amounts.
\<close>

theorem C8_rejected_calls_leave_files:
  "(amount \<le> 0 \<longrightarrow>
      decrement_room_availability names fs path hn amount
        = (Inl (ValueError ''decrement must be positive''), fs)
      \<and> increment_room_availability names fs path hn amount
        = (Inl (ValueError ''increment must be positive''), fs))
   \<and> (0 < amount \<and> fs path = None \<longrightarrow>
      decrement_room_availability names fs path hn amount
        = (Inl (FileNotFoundError (''Hotels CSV not found: '' @ path)), fs)
      \<and> increment_room_availability names fs path hn amount
        = (Inl (FileNotFoundError (''Hotels CSV not found: '' @ path)), fs))"
  by (simp add: decrement_room_availability_def increment_room_availability_def update_first_def)

theorem C8_witness:
  "decrement_room_availability [''k3x9_q0z''] sunrise_fs ''data/hotels.csv'' ''Sunrise Inn'' 0
     = (Inl (ValueError ''decrement must be positive''), sunrise_fs)
   \<and> increment_room_availability [''k3x9_q0z''] sunrise_fs ''data/hotels.csv'' ''Sunrise Inn'' (- 2)
     = (Inl (ValueError ''increment must be positive''), sunrise_fs)
   \<and> decrement_room_availability [''k3x9_q0z''] sunrise_fs ''data/rooms.csv'' ''Sunrise Inn'' 1
     = (Inl (FileNotFoundError ''Hotels CSV not found: data/rooms.csv''), sunrise_fs)
   \<and> increment_room_availability [''k3x9_q0z''] sunrise_fs ''data/rooms.csv'' ''Sunrise Inn'' 1
     = (Inl (FileNotFoundError ''Hotels CSV not found: data/rooms.csv''), sunrise_fs)
   \<and> sunrise_fs ''data/rooms.csv'' = None"
  using C8_rejected_calls_leave_files [of 0 "[''k3x9_q0z'']" sunrise_fs "''data/hotels.csv''" "''Sunrise Inn''"]
    C8_rejected_calls_leave_files [of "- 2" "[''k3x9_q0z'']" sunrise_fs "''data/hotels.csv''" "''Sunrise Inn''"]
    C8_rejected_calls_leave_files [of 1 "[''k3x9_q0z'']" sunrise_fs "''data/rooms.csv''" "''Sunrise Inn''"]
  by (simp add: sunrise_fs_def)

subsection \<open>The temporary file and the replacement\<close>

text \<open>
  Claim C9. Let a file exist at the target path, and let the names that \<open>mkstemp\<close> is
  offered contain no slash. If the writer can create its temporary file, that file is new,
  differs from the target and lies in the directory of the target (the current directory
  when the path names none). In the sequence of states that the file system passes
  through, every state but the last shows the old content at the target, whatever the
  temporary file holds while it is written; the last state, reached by the one
  replacement step, shows the complete new table there and no temporary file. No other
  path changes. Replacement as one step is what the operating system provides for
  \<open>os.replace\<close>.
\<close>

theorem C9_atomic_write:
  assumes "fs path = Some old"
    and "atomic_write_csv_states df path names partial fs = Inr states"
    and "\<forall>n \<in> set names. CHR ''/'' \<notin> set n"
  shows "\<exists>tmp. tmp \<noteq> path \<and> fs tmp = None
       \<and> dirname tmp = (if dirname path = [] then ''.'' else dirname path)
       \<and> length states = length partial + 4
       \<and> (\<forall>k. k + 1 < length states \<longrightarrow> (states ! k) path = Some old)
       \<and> (states ! (length partial + 2)) tmp = Some (to_csv df)
       \<and> last states = fs(path \<mapsto> to_csv df)
       \<and> (\<forall>k q. k < length states \<and> q \<noteq> path \<and> q \<noteq> tmp \<longrightarrow> (states ! k) q = fs q)
       \<and> atomic_write_csv df path names fs = Inr (last states)"
proof -
  define d where "d = (if dirname path = [] then ''.'' else dirname path)"
  from assms(2) obtain tmp where
    m: "mkstemp_inner fs d ''tmp'' ''.csv'' names = Inr tmp"
    and st: "states = [fs, fs(tmp \<mapsto> Unreadable)]
          @ map (\<lambda>c. (fs(tmp \<mapsto> Unreadable))(tmp \<mapsto> c)) partial
          @ [(fs(tmp \<mapsto> Unreadable))(tmp \<mapsto> to_csv df),
             os_replace tmp path ((fs(tmp \<mapsto> Unreadable))(tmp \<mapsto> to_csv df))]"
    by (auto simp: atomic_write_csv_states_def mkstemp_def Let_def d_def split: sum.splits)
  from mkstemp_same_directory [OF m [unfolded d_def] assms(3)]
  have dir: "dirname tmp = d" and fr: "fs tmp = None" by (simp_all add: d_def)
  from fr assms(1) have ne: "tmp \<noteq> path" by auto
  have fin: "os_replace tmp path (fs(tmp \<mapsto> to_csv df)) = fs(path \<mapsto> to_csv df)"
    using ne fr by (auto simp: os_replace_def fun_eq_iff)
  have len: "length states = length partial + 4" by (simp add: st)
  have la: "last states = fs(path \<mapsto> to_csv df)" by (simp add: st fin)
  have w: "atomic_write_csv df path names fs = Inr (last states)"
    using m by (simp add: atomic_write_csv_def mkstemp_def d_def [symmetric] la fin)
  have each: "(k + 1 < length states \<longrightarrow> (states ! k) path = Some old)
      \<and> (q \<noteq> path \<and> q \<noteq> tmp \<longrightarrow> (states ! k) q = fs q)" if kl: "k < length states" for k q
  proof -
    consider "k = 0" | "k = 1" | "2 \<le> k" "k < length partial + 2" | "k = length partial + 2"
      | "k = length partial + 3"
      using kl len by arith
    then show ?thesis
    proof cases
      case 1
      then show ?thesis using assms(1) by (simp add: st)
    next
      case 2
      then show ?thesis using assms(1) ne by (simp add: st)
    next
      case 3
      then obtain j where j: "k = j + 2" "j < length partial"
        by (metis add.commute le_Suc_ex less_diff_conv2 add_diff_cancel_left')
      then have "states ! k = (fs(tmp \<mapsto> Unreadable))(tmp \<mapsto> partial ! j)"
        by (simp add: st nth_append)
      then show ?thesis using assms(1) ne by simp
    next
      case 4
      then have "states ! k = (fs(tmp \<mapsto> Unreadable))(tmp \<mapsto> to_csv df)"
        by (simp add: st nth_append)
      then show ?thesis using assms(1) ne by simp
    next
      case 5
      then have "states ! k = last states"
        using len by (simp add: last_conv_nth st)
      then show ?thesis using 5 len by (simp add: la)
    qed
  qed
  have full: "(states ! (length partial + 2)) tmp = Some (to_csv df)"
    by (simp add: st nth_append)
  have a: "\<forall>k. k + 1 < length states \<longrightarrow> (states ! k) path = Some old"
    using each by auto
  have b: "\<forall>k q. k < length states \<and> q \<noteq> path \<and> q \<noteq> tmp \<longrightarrow> (states ! k) q = fs q"
    using each by blast
  from ne fr dir len a full la b w show ?thesis
    unfolding d_def by blast
qed

theorem C9_witness:
  "sunrise_fs ''data/hotels.csv'' = Some (Parsed sunrise_table)
   \<and> (\<exists>tmp. tmp \<noteq> ''data/hotels.csv'' \<and> sunrise_fs tmp = None \<and> dirname tmp = ''data''
        \<and> (projr (atomic_write_csv_states [(''name'', [Str ''Sunrise Inn''])] ''data/hotels.csv''
               [''k3x9_q0z''] [Parsed [(''name'', [])]] sunrise_fs) ! 2) ''data/hotels.csv''
            = Some (Parsed sunrise_table)
        \<and> (projr (atomic_write_csv_states [(''name'', [Str ''Sunrise Inn''])] ''data/hotels.csv''
               [''k3x9_q0z''] [Parsed [(''name'', [])]] sunrise_fs) ! 3) ''data/hotels.csv''
            = Some (Parsed sunrise_table)
        \<and> (projr (atomic_write_csv_states [(''name'', [Str ''Sunrise Inn''])] ''data/hotels.csv''
               [''k3x9_q0z''] [Parsed [(''name'', [])]] sunrise_fs) ! 3) tmp
            = Some (to_csv [(''name'', [Str ''Sunrise Inn''])])
        \<and> atomic_write_csv [(''name'', [Str ''Sunrise Inn''])] ''data/hotels.csv''
               [''k3x9_q0z''] sunrise_fs
            = Inr (sunrise_fs(''data/hotels.csv'' \<mapsto> to_csv [(''name'', [Str ''Sunrise Inn''])])))"
proof -
  define states where "states = projr (atomic_write_csv_states [(''name'', [Str ''Sunrise Inn''])]
      ''data/hotels.csv'' [''k3x9_q0z''] [Parsed [(''name'', [])]] sunrise_fs)"
  have dn: "dirname ''data/hotels.csv'' = ''data''" by code_simp
  have ev: "mkstemp_inner sunrise_fs ''data'' ''tmp'' ''.csv'' [''k3x9_q0z'']
      = Inr ''data/tmpk3x9_q0z.csv''"
    by code_simp
  have h1: "sunrise_fs ''data/hotels.csv'' = Some (Parsed sunrise_table)"
    by (rule sunrise_wf(1))
  have h2: "atomic_write_csv_states [(''name'', [Str ''Sunrise Inn''])] ''data/hotels.csv''
      [''k3x9_q0z''] [Parsed [(''name'', [])]] sunrise_fs = Inr states"
    unfolding states_def
    by (simp add: atomic_write_csv_states_def mkstemp_def dn ev Let_def
        del: mkstemp_inner.simps)
  have h3: "\<forall>n \<in> set [''k3x9_q0z'']. CHR ''/'' \<notin> set n" by simp
  from C9_atomic_write [OF h1 h2 h3] obtain tmp where all:
    "tmp \<noteq> ''data/hotels.csv'' \<and> sunrise_fs tmp = None
       \<and> dirname tmp = (if dirname ''data/hotels.csv'' = [] then ''.'' else dirname ''data/hotels.csv'')
       \<and> length states = length [Parsed [(''name'', [])]] + 4
       \<and> (\<forall>k. k + 1 < length states \<longrightarrow> (states ! k) ''data/hotels.csv'' = Some (Parsed sunrise_table))
       \<and> (states ! (length [Parsed [(''name'', [])]] + 2)) tmp
            = Some (to_csv [(''name'', [Str ''Sunrise Inn''])])
       \<and> last states = sunrise_fs(''data/hotels.csv'' \<mapsto> to_csv [(''name'', [Str ''Sunrise Inn''])])
       \<and> (\<forall>k q. k < length states \<and> q \<noteq> ''data/hotels.csv'' \<and> q \<noteq> tmp
              \<longrightarrow> (states ! k) q = sunrise_fs q)
       \<and> atomic_write_csv [(''name'', [Str ''Sunrise Inn''])] ''data/hotels.csv''
               [''k3x9_q0z''] sunrise_fs = Inr (last states)" ..
  note ne = all [THEN conjunct1]
    and fr = all [THEN conjunct2, THEN conjunct1]
    and dir = all [THEN conjunct2, THEN conjunct2, THEN conjunct1]
    and len = all [THEN conjunct2, THEN conjunct2, THEN conjunct2, THEN conjunct1]
    and old = all [THEN conjunct2, THEN conjunct2, THEN conjunct2, THEN conjunct2, THEN conjunct1]
    and full = all [THEN conjunct2, THEN conjunct2, THEN conjunct2, THEN conjunct2,
        THEN conjunct2, THEN conjunct1]
    and la = all [THEN conjunct2, THEN conjunct2, THEN conjunct2, THEN conjunct2,
        THEN conjunct2, THEN conjunct2, THEN conjunct1]
    and w = all [THEN conjunct2, THEN conjunct2, THEN conjunct2, THEN conjunct2,
        THEN conjunct2, THEN conjunct2, THEN conjunct2, THEN conjunct2]
  have 1: "dirname tmp = ''data''" using dir by (simp add: dn)
  have 2: "(states ! 2) ''data/hotels.csv'' = Some (Parsed sunrise_table)"
    using old [rule_format, of 2] len by simp
  have 3: "(states ! 3) ''data/hotels.csv'' = Some (Parsed sunrise_table)"
    using old [rule_format, of 3] len by simp
  have 4: "(states ! 3) tmp = Some (to_csv [(''name'', [Str ''Sunrise Inn''])])"
    using full by (simp add: numeral_3_eq_3)
  have 5: "atomic_write_csv [(''name'', [Str ''Sunrise Inn''])] ''data/hotels.csv''
               [''k3x9_q0z''] sunrise_fs
            = Inr (sunrise_fs(''data/hotels.csv'' \<mapsto> to_csv [(''name'', [Str ''Sunrise Inn''])]))"
    using w la by simp
  show ?thesis
    unfolding states_def [symmetric]
    apply (rule conjI [OF h1])
    apply (rule exI [of _ tmp])
    apply (intro conjI)
    apply (rule ne fr 1 2 3 4 5)+
    done
qed

subsection \<open>An empty hotel name\<close>

text \<open>
  Claim C10, as stated, fails when a hotel has a name of spaces only: such a name trims to
  the empty text, the first stage finds it, and the third stage is never reached. In the
  sample the first row has the name \<open>Alpha Hotel\<close>, and the call with the empty name
  changes the second row.
\<close>

theorem C10_counterexample:
  "safe_read_csv blank_fs ''data/hotels.csv''
     = Inr [(''name'', [Str ''Alpha Hotel'', Str ''  '']),
            (''rooms_available'', [Integer 5, Integer 3]),
            (''status'', [Str AVAILABLE, Str AVAILABLE])]
   \<and> match_rows [(''name'', [Str ''Alpha Hotel'', Str ''  '']),
                  (''rooms_available'', [Integer 5, Integer 3]),
                  (''status'', [Str AVAILABLE, Str AVAILABLE])] '''' = Inr [False, True]
   \<and> fst (decrement_room_availability [''k3x9_q0z''] blank_fs ''data/hotels.csv'' '''' 1) = Inr 2
   \<and> snd (decrement_room_availability [''k3x9_q0z''] blank_fs ''data/hotels.csv'' '''' 1)
       ''data/hotels.csv''
     = Some (Parsed [(''name'', [Some ''Alpha Hotel'', Some ''  '']),
                     (''rooms_available'', [Some ''5'', Some ''2'']),
                     (''status'', [Some AVAILABLE, Some AVAILABLE])])"
  by code_simp

text \<open>
  Claim C10, amended. Let some row of the loaded table have a name or a hotel name that
  is not missing, and let the hotel name of the call trim to the empty text. If the name
  or hotel name of some row trims to the empty text, the first stage marks exactly those
  rows. Otherwise the third stage marks every row with a name or hotel name that is not
  missing, and where the first row of the table is such a row it is the one to change;
  of a row with a missing name nothing is said. Either way some row is marked: with a
  positive amount, and a temporary file to create, decrement changes the first marked row
  and returns its new count, and so does increment as long as the new count is below
  \<open>2 ^ 63\<close>.
\<close>

theorem C10_empty_name:
  assumes "fs path = Some (Parsed t)" and "wf_table t" and "safe_read_csv fs path = Inr df"
    and "j < len df" and "named df j"
    and "strip hn = []" and "0 < a" and "can_create_temp names fs path"
  shows "\<exists>m c. match_rows df hn = Inr m \<and> any m
       \<and> (any (spec_stage df (\<lambda>x. x = [])) \<longrightarrow> m = spec_stage df (\<lambda>x. x = []))
       \<and> (\<not> any (spec_stage df (\<lambda>x. x = [])) \<longrightarrow>
            (\<forall>k < len df. named df k \<longrightarrow> m ! k) \<and> (named df 0 \<longrightarrow> first_true m = 0))
       \<and> at df (first_true m) ''rooms_available'' = Some (Integer c)
       \<and> decrement_room_availability names fs path hn a
           = (Inr (max 0 (c - a)),
              fs(path \<mapsto> to_csv (mutated df (first_true m) (max 0 (c - a)))))
       \<and> (c + a < 2 ^ 63 \<longrightarrow>
            increment_room_availability names fs path hn a
              = (Inr (c + a), fs(path \<mapsto> to_csv (mutated df (first_true m) (c + a)))))"
proof -
  define m where "m = (if any (spec_stage df (\<lambda>x. x = [])) then spec_stage df (\<lambda>x. x = [])
              else replicate (len df) True)"
  have ty: "typed df" using assms(1,2,3) by (rule safe_read_csv_typed)
  then have r: "rect df" by (simp add: typed_def)
  have hc: "has_column df ''name'' \<or> has_column df ''hotel_name''"
    using assms(5) by (auto simp: named_def at_def has_column_map_of split: option.splits)
  have mr: "match_rows df hn = Inr m"
    unfolding m_def by (rule match_rows_empty_name [OF r hc assms(6)])
  have a: "any m"
    using assms(4) by (cases "len df") (auto simp: m_def any_def)
  have b: "m = spec_stage df (\<lambda>x. x = [])" if "any (spec_stage df (\<lambda>x. x = []))"
    using that by (simp add: m_def)
  have f: "(\<forall>k < len df. named df k \<longrightarrow> m ! k) \<and> (named df 0 \<longrightarrow> first_true m = 0)"
    if "\<not> any (spec_stage df (\<lambda>x. x = []))"
  proof -
    from that have e: "m = replicate (len df) True" by (simp add: m_def)
    have "first_true m = 0"
      using assms(4) by (cases "len df") (simp_all add: e first_true_def)
    then show ?thesis by (simp add: e)
  qed
  from update_first_total [OF assms(3) ty mr a assms(8), of "\<lambda>current. max 0 (current - a)"]
  obtain c where c: "at df (first_true m) ''rooms_available'' = Some (Integer c)"
    and i64: "int64 c"
    and u1: "int64 (max 0 (c - a)) \<Longrightarrow>
      update_first (\<lambda>current. max 0 (current - a)) names fs path hn
        = (Inr (max 0 (c - a)), fs(path \<mapsto> to_csv (mutated df (first_true m) (max 0 (c - a)))))"
    by blast
  from update_first_total [OF assms(3) ty mr a assms(8), of "\<lambda>current. current + a"] c
  have u2: "int64 (c + a) \<Longrightarrow>
      update_first (\<lambda>current. current + a) names fs path hn
        = (Inr (c + a), fs(path \<mapsto> to_csv (mutated df (first_true m) (c + a))))"
    by auto
  have d: "decrement_room_availability names fs path hn a
           = (Inr (max 0 (c - a)),
              fs(path \<mapsto> to_csv (mutated df (first_true m) (max 0 (c - a)))))"
    using u1 [OF int64_decrement [OF i64 assms(7)]] assms(7)
    by (simp add: decrement_room_availability_def)
  have i: "increment_room_availability names fs path hn a
              = (Inr (c + a), fs(path \<mapsto> to_csv (mutated df (first_true m) (c + a))))"
    if "c + a < 2 ^ 63"
  proof -
    from that i64 assms(7) have "int64 (c + a)" by (simp add: int64_def)
    from u2 [OF this] assms(7) show ?thesis
      by (simp add: increment_room_availability_def)
  qed
  from mr a b f c d i show ?thesis by blast
qed

theorem C10_witness:
  "strip ''  '' = []
   \<and> named [(''name'', [Str ''Sunrise Inn'']), (''rooms_available'', [Integer 10]),
            (''status'', [Str AVAILABLE])] 0
   \<and> match_rows [(''name'', [Str ''Sunrise Inn'']), (''rooms_available'', [Integer 10]),
                  (''status'', [Str AVAILABLE])] ''  '' = Inr [True]
   \<and> fst (decrement_room_availability [''k3x9_q0z''] sunrise_fs ''data/hotels.csv'' ''  '' 1)
       = Inr 9
   \<and> fst (increment_room_availability [''k3x9_q0z''] sunrise_fs ''data/hotels.csv'' ''  '' 1)
       = Inr 11"
proof -
  have s: "strip ''  '' = []" by code_simp
  have p: "(0::int) < 1" by simp
  have n: "named [(''name'', [Str ''Sunrise Inn'']), (''rooms_available'', [Integer 10]),
                  (''status'', [Str AVAILABLE])] 0"
    by code_simp
  have l: "0 < len [(''name'', [Str ''Sunrise Inn'']), (''rooms_available'', [Integer 10]),
                  (''status'', [Str AVAILABLE])]"
    by code_simp
  have t: "can_create_temp [''k3x9_q0z''] sunrise_fs ''data/hotels.csv''" by code_simp
  have e: "\<not> any (spec_stage [(''name'', [Str ''Sunrise Inn'']),
                  (''rooms_available'', [Integer 10]), (''status'', [Str AVAILABLE])]
                  (\<lambda>x. x = []))"
    by code_simp
  from C10_empty_name [OF sunrise_wf sunrise_loaded l n s p t]
  obtain m c where all:
    "match_rows [(''name'', [Str ''Sunrise Inn'']), (''rooms_available'', [Integer 10]),
                 (''status'', [Str AVAILABLE])] ''  '' = Inr m"
    "\<not> any (spec_stage [(''name'', [Str ''Sunrise Inn'']),
                  (''rooms_available'', [Integer 10]), (''status'', [Str AVAILABLE])]
                  (\<lambda>x. x = [])) \<longrightarrow>
       (\<forall>k < len [(''name'', [Str ''Sunrise Inn'']), (''rooms_available'', [Integer 10]),
                  (''status'', [Str AVAILABLE])].
           named [(''name'', [Str ''Sunrise Inn'']), (''rooms_available'', [Integer 10]),
                  (''status'', [Str AVAILABLE])] k \<longrightarrow> m ! k)
       \<and> (named [(''name'', [Str ''Sunrise Inn'']), (''rooms_available'', [Integer 10]),
                  (''status'', [Str AVAILABLE])] 0 \<longrightarrow> first_true m = 0)"
    "at [(''name'', [Str ''Sunrise Inn'']), (''rooms_available'', [Integer 10]),
         (''status'', [Str AVAILABLE])] (first_true m) ''rooms_available'' = Some (Integer c)"
    "decrement_room_availability [''k3x9_q0z''] sunrise_fs ''data/hotels.csv'' ''  '' 1
       = (Inr (max 0 (c - 1)),
          sunrise_fs(''data/hotels.csv'' \<mapsto> to_csv (mutated
             [(''name'', [Str ''Sunrise Inn'']), (''rooms_available'', [Integer 10]),
              (''status'', [Str AVAILABLE])] (first_true m) (max 0 (c - 1)))))"
    "c + 1 < 2 ^ 63 \<longrightarrow>
       increment_room_availability [''k3x9_q0z''] sunrise_fs ''data/hotels.csv'' ''  '' 1
         = (Inr (c + 1),
            sunrise_fs(''data/hotels.csv'' \<mapsto> to_csv (mutated
               [(''name'', [Str ''Sunrise Inn'']), (''rooms_available'', [Integer 10]),
                (''status'', [Str AVAILABLE])] (first_true m) (c + 1))))"
    by blast
  from all(2) e n have f: "first_true m = 0" by blast
  have "at [(''name'', [Str ''Sunrise Inn'']), (''rooms_available'', [Integer 10]),
         (''status'', [Str AVAILABLE])] 0 ''rooms_available'' = Some (Integer 10)"
    by code_simp
  with all(3) f have c: "c = 10" by simp
  from all(2) e l n have "m ! 0" by blast
  moreover have "length m = 1"
    using length_match_rows [OF _ all(1)] by (simp add: rect_def len_def)
  ultimately have m: "m = [True]" by (cases m) auto
  from all(4) c have 1: "fst (decrement_room_availability [''k3x9_q0z''] sunrise_fs
      ''data/hotels.csv'' ''  '' 1) = Inr 9"
    by simp
  from all(5) c have 2: "fst (increment_room_availability [''k3x9_q0z''] sunrise_fs
      ''data/hotels.csv'' ''  '' 1) = Inr 11"
    by simp
  from s n all(1) [unfolded m] 1 2 show ?thesis by (intro conjI)
qed

end

